theory Spec2Isabelle
  imports Complex_Main
begin

section \<open>Numbers and vectors\<close>

text \<open>
  The scene code of \<^verbatim>\<open>src/app/sketch/page.tsx\<close> reads coordinates of a bounding box that
  may be empty, and an empty box of the 3D engine has the corners \<open>+Infinity\<close> and
  \<open>-Infinity\<close>. The numbers of that part of the program are therefore the reals extended
  by the two infinities and NaN, with the arithmetic of JavaScript on them. Rounding is
  not modelled: a finite number is a real, so every equality proved below is exact where
  the program computes it up to rounding.
\<close>

datatype num = Fin real | PInf | NInf | NaN

fun isFinite :: "num \<Rightarrow> bool" where
  "isFinite (Fin _) = True"
| "isFinite _ = False"

fun neg :: "num \<Rightarrow> num" where
  "neg (Fin r) = Fin (- r)"
| "neg PInf = NInf"
| "neg NInf = PInf"
| "neg NaN = NaN"

fun add :: "num \<Rightarrow> num \<Rightarrow> num" where
  "add (Fin a) (Fin b) = Fin (a + b)"
| "add NaN _ = NaN"
| "add _ NaN = NaN"
| "add PInf NInf = NaN"
| "add NInf PInf = NaN"
| "add PInf _ = PInf"
| "add _ PInf = PInf"
| "add NInf _ = NInf"
| "add _ NInf = NInf"

definition sub :: "num \<Rightarrow> num \<Rightarrow> num" where
  "sub a b = add a (neg b)"

fun mul :: "num \<Rightarrow> num \<Rightarrow> num" where
  "mul (Fin a) (Fin b) = Fin (a * b)"
| "mul NaN _ = NaN"
| "mul _ NaN = NaN"
| "mul (Fin a) PInf = (if a = 0 then NaN else if 0 < a then PInf else NInf)"
| "mul (Fin a) NInf = (if a = 0 then NaN else if 0 < a then NInf else PInf)"
| "mul PInf (Fin b) = (if b = 0 then NaN else if 0 < b then PInf else NInf)"
| "mul NInf (Fin b) = (if b = 0 then NaN else if 0 < b then NInf else PInf)"
| "mul PInf PInf = PInf"
| "mul NInf NInf = PInf"
| "mul PInf NInf = NInf"
| "mul NInf PInf = NInf"

fun Math_sqrt :: "num \<Rightarrow> num" where
  "Math_sqrt (Fin r) = (if r < 0 then NaN else Fin (sqrt r))"
| "Math_sqrt PInf = PInf"
| "Math_sqrt NInf = NaN"
| "Math_sqrt NaN = NaN"

text \<open>\<open>a <= b\<close> and \<open>a < b\<close> of JavaScript: false as soon as one side is NaN.\<close>

fun num_le :: "num \<Rightarrow> num \<Rightarrow> bool" where
  "num_le NaN _ = False"
| "num_le _ NaN = False"
| "num_le (Fin a) (Fin b) = (a \<le> b)"
| "num_le NInf _ = True"
| "num_le _ PInf = True"
| "num_le _ _ = False"

fun num_lt :: "num \<Rightarrow> num \<Rightarrow> bool" where
  "num_lt NaN _ = False"
| "num_lt _ NaN = False"
| "num_lt (Fin a) (Fin b) = (a < b)"
| "num_lt PInf _ = False"
| "num_lt _ NInf = False"
| "num_lt _ _ = True"

fun Math_min :: "num \<Rightarrow> num \<Rightarrow> num" where
  "Math_min NaN _ = NaN"
| "Math_min _ NaN = NaN"
| "Math_min a b = (if num_le a b then a else b)"

fun Math_max :: "num \<Rightarrow> num \<Rightarrow> num" where
  "Math_max NaN _ = NaN"
| "Math_max _ NaN = NaN"
| "Math_max a b = (if num_le a b then b else a)"

datatype 'a Vector3 = Vector3 (vx: 'a) (vy: 'a) (vz: 'a)

section \<open>Strings\<close>

text \<open>
  A name is a \<^typ>\<open>string\<close>, one character per code unit, so the names covered are
  those of the Latin-1 range. \<open>isWhiteSpace\<close> lists the characters of that range that
  \<^verbatim>\<open>String.prototype.trim\<close> removes, and \<open>toLowerChar\<close> the letters of that range that
  \<^verbatim>\<open>toLowerCase\<close> changes.
\<close>

definition isWhiteSpace :: "char \<Rightarrow> bool" where
  "isWhiteSpace c = (c \<in> {CHR 0x09, CHR 0x0A, CHR 0x0B, CHR 0x0C, CHR 0x0D, CHR 0x20, CHR 0xA0})"

definition trim :: "string \<Rightarrow> string" where
  "trim s = rev (dropWhile isWhiteSpace (rev (dropWhile isWhiteSpace s)))"

definition upperChars :: string where
  "upperChars = ''ABCDEFGHIJKLMNOPQRSTUVWXYZ'' @
     [CHR 0xC0, CHR 0xC1, CHR 0xC2, CHR 0xC3, CHR 0xC4, CHR 0xC5, CHR 0xC6, CHR 0xC7,
      CHR 0xC8, CHR 0xC9, CHR 0xCA, CHR 0xCB, CHR 0xCC, CHR 0xCD, CHR 0xCE, CHR 0xCF,
      CHR 0xD0, CHR 0xD1, CHR 0xD2, CHR 0xD3, CHR 0xD4, CHR 0xD5, CHR 0xD6,
      CHR 0xD8, CHR 0xD9, CHR 0xDA, CHR 0xDB, CHR 0xDC, CHR 0xDD, CHR 0xDE]"

definition lowerChars :: string where
  "lowerChars = ''abcdefghijklmnopqrstuvwxyz'' @
     [CHR 0xE0, CHR 0xE1, CHR 0xE2, CHR 0xE3, CHR 0xE4, CHR 0xE5, CHR 0xE6, CHR 0xE7,
      CHR 0xE8, CHR 0xE9, CHR 0xEA, CHR 0xEB, CHR 0xEC, CHR 0xED, CHR 0xEE, CHR 0xEF,
      CHR 0xF0, CHR 0xF1, CHR 0xF2, CHR 0xF3, CHR 0xF4, CHR 0xF5, CHR 0xF6,
      CHR 0xF8, CHR 0xF9, CHR 0xFA, CHR 0xFB, CHR 0xFC, CHR 0xFD, CHR 0xFE]"

definition toLowerChar :: "char \<Rightarrow> char" where
  "toLowerChar c = (case map_of (zip upperChars lowerChars) c of Some l \<Rightarrow> l | None \<Rightarrow> c)"

definition toLowerCase :: "string \<Rightarrow> string" where
  "toLowerCase s = map toLowerChar s"

text \<open>
  \<^verbatim>\<open>s.replace(/^\//, "")\<close> drops one leading slash and \<^verbatim>\<open>s.replace(/\/$/, "")\<close>
  one trailing slash.
\<close>

fun dropLeadingSlash :: "string \<Rightarrow> string" where
  "dropLeadingSlash (c # cs) = (if c = CHR ''/'' then cs else c # cs)"
| "dropLeadingSlash [] = []"

definition dropTrailingSlash :: "string \<Rightarrow> string" where
  "dropTrailingSlash s = (if s \<noteq> [] \<and> last s = CHR ''/'' then butlast s else s)"

text \<open>
  \<open>buildPublicUrl\<close> (page.tsx, lines 25-32). \<open>BASE_PATH\<close> is the environment variable
  \<^verbatim>\<open>NEXT_PUBLIC_BASE_PATH\<close>, \<open>None\<close> when it is not set; the empty string is falsy.
\<close>

definition buildPublicUrl :: "string option \<Rightarrow> string \<Rightarrow> string" where
  "buildPublicUrl BASE_PATH relativePath =
     (let sanitizedRelative = dropLeadingSlash relativePath in
      case BASE_PATH of
        None \<Rightarrow> ''/'' @ sanitizedRelative
      | Some b \<Rightarrow>
          if b \<noteq> [] \<and> b \<noteq> ''/''
          then (let sanitizedBase = dropTrailingSlash b in sanitizedBase @ ''/'' @ sanitizedRelative)
          else ''/'' @ sanitizedRelative)"

section \<open>The scene graph and its bounds\<close>

text \<open>
  A node of the loaded scene graph: the fields of \<^verbatim>\<open>THREE.Object3D\<close> that the program
  reads. \<open>obj_isMesh\<close> is \<^verbatim>\<open>o instanceof THREE.Mesh\<close>. \<open>obj_points\<close> are the points that
  the node's own geometry contributes to a bounding-box query, given in the frame in
  which the scene root is placed, that is with every transform from the scene root down
  to the node applied (for a mesh, the corners of its local box carried through its
  transform, see \<open>object3D\<close> below); they are finite by type. The group that holds the scene (the
  \<^verbatim>\<open>groupRef\<close> of \<open>HotelModel\<close>) has a position only, so world space is that frame
  translated by the position of the group.
\<close>

datatype Object3D = Object3D
  (obj_name: string) (obj_visible: bool) (obj_isMesh: bool) (obj_uuid: string)
  (obj_points: "real Vector3 list") (obj_children: "Object3D list")

fun subtreePoints :: "Object3D \<Rightarrow> real Vector3 list" where
  "subtreePoints (Object3D n v m u ps cs) = ps @ concat (map subtreePoints cs)"

text \<open>\<^verbatim>\<open>Object3D.traverse\<close>: the node itself, then its descendants, in child order.\<close>

fun traverse :: "Object3D \<Rightarrow> Object3D list" where
  "traverse (Object3D n v m u ps cs) = Object3D n v m u ps cs # concat (map traverse cs)"

definition toWorld :: "num Vector3 \<Rightarrow> real Vector3 \<Rightarrow> num Vector3" where
  "toWorld pos p = Vector3 (add (Fin (vx p)) (vx pos)) (add (Fin (vy p)) (vy pos)) (add (Fin (vz p)) (vz pos))"

definition worldPoints :: "num Vector3 \<Rightarrow> Object3D \<Rightarrow> num Vector3 list" where
  "worldPoints pos obj = map (toWorld pos) (subtreePoints obj)"

record Box3 =
  box_min :: "num Vector3"
  box_max :: "num Vector3"

record Sphere =
  center :: "num Vector3"
  radius :: num

text \<open>
  Modelled from the spec: \<^verbatim>\<open>THREE.Box3\<close> and \<^verbatim>\<open>THREE.Sphere\<close> belong to the 3D engine,
  which is not part of the sources. Section 4.1 of the specification describes the
  query as the axis-aligned bounding box of all geometry under the node in world space,
  then the enclosing sphere of that box. A new box is empty, with minimum \<open>+Infinity\<close>
  and maximum \<open>-Infinity\<close> on every axis; a point widens it by \<^verbatim>\<open>Math.min\<close> and
  \<^verbatim>\<open>Math.max\<close> per axis; the sphere of a box has the centre of the box and half its
  diagonal as radius, and the sphere of an empty box is the engine's empty sphere,
  centre at the origin and radius \<open>-1\<close>.
\<close>

definition makeEmpty :: Box3 where
  "makeEmpty = \<lparr>box_min = Vector3 PInf PInf PInf, box_max = Vector3 NInf NInf NInf\<rparr>"

definition expandByPoint :: "Box3 \<Rightarrow> num Vector3 \<Rightarrow> Box3" where
  "expandByPoint b p =
     \<lparr>box_min = Vector3 (Math_min (vx (box_min b)) (vx p)) (Math_min (vy (box_min b)) (vy p))
                        (Math_min (vz (box_min b)) (vz p)),
      box_max = Vector3 (Math_max (vx (box_max b)) (vx p)) (Math_max (vy (box_max b)) (vy p))
                        (Math_max (vz (box_max b)) (vz p))\<rparr>"

definition setFromObject :: "num Vector3 \<Rightarrow> Object3D \<Rightarrow> Box3" where
  "setFromObject pos obj = foldl expandByPoint makeEmpty (worldPoints pos obj)"

definition isEmpty :: "Box3 \<Rightarrow> bool" where
  "isEmpty b = (num_lt (vx (box_max b)) (vx (box_min b)) \<or> num_lt (vy (box_max b)) (vy (box_min b))
                \<or> num_lt (vz (box_max b)) (vz (box_min b)))"

definition vec_length :: "num Vector3 \<Rightarrow> num" where
  "vec_length v = Math_sqrt (add (add (mul (vx v) (vx v)) (mul (vy v) (vy v))) (mul (vz v) (vz v)))"

definition getBoundingSphere :: "Box3 \<Rightarrow> Sphere" where
  "getBoundingSphere b =
     (if isEmpty b then \<lparr>center = Vector3 (Fin 0) (Fin 0) (Fin 0), radius = Fin (- 1)\<rparr>
      else (let mn = box_min b; mx = box_max b;
                c = Vector3 (mul (add (vx mn) (vx mx)) (Fin (1/2))) (mul (add (vy mn) (vy mx)) (Fin (1/2)))
                            (mul (add (vz mn) (vz mx)) (Fin (1/2)));
                size = Vector3 (sub (vx mx) (vx mn)) (sub (vy mx) (vy mn)) (sub (vz mx) (vz mn))
            in \<lparr>center = c, radius = mul (vec_length size) (Fin (1/2))\<rparr>))"

text \<open>
  \<open>computeObjectSphere\<close> (page.tsx, lines 54-60). The first argument is the position of
  the group at the time of the call, which fixes the world transform of \<open>obj\<close>.
\<close>

definition computeObjectSphere :: "num Vector3 \<Rightarrow> Object3D \<Rightarrow> Sphere option" where
  "computeObjectSphere pos obj =
     (let box = setFromObject pos obj in
      if \<not> isFinite (vx (box_min box)) \<or> \<not> isFinite (vx (box_max box)) then None
      else Some (getBoundingSphere box))"

section \<open>Meshes and the points of their boxes\<close>

text \<open>
  Where the points of a node come from. The program queries the box with
  \<^verbatim>\<open>setFromObject(obj)\<close>, without the engine's \<open>precise\<close> flag, and the engine then takes
  a mesh by the box of its geometry in the mesh's own frame, carried through the
  transform of the mesh: the eight corners of that local box are transformed, and the
  box is widened by them. The vertices themselves do not enter. A \<open>SceneNode\<close> is a node
  with its vertices, in its own frame, and its transform into the frame in which the
  scene root is placed (the upper three rows of the matrix, the fourth being
  \<open>0 0 0 1\<close>); \<open>object3D\<close> gives the node the program sees, and \<open>sceneVertices\<close> the
  vertices of the geometry in the frame of the scene root.
\<close>

datatype Matrix4 = Matrix4
  (m11: real) (m12: real) (m13: real) (m14: real)
  (m21: real) (m22: real) (m23: real) (m24: real)
  (m31: real) (m32: real) (m33: real) (m34: real)

definition applyMatrix4 :: "Matrix4 \<Rightarrow> real Vector3 \<Rightarrow> real Vector3" where
  "applyMatrix4 M p =
     Vector3 (m11 M * vx p + m12 M * vy p + m13 M * vz p + m14 M)
             (m21 M * vx p + m22 M * vy p + m23 M * vz p + m24 M)
             (m31 M * vx p + m32 M * vy p + m33 M * vz p + m34 M)"

definition localBoxCorners :: "real Vector3 list \<Rightarrow> real Vector3 list" where
  "localBoxCorners vs =
     (if vs = [] then []
      else [Vector3 x y z.
              x \<leftarrow> [Min (set (map vx vs)), Max (set (map vx vs))],
              y \<leftarrow> [Min (set (map vy vs)), Max (set (map vy vs))],
              z \<leftarrow> [Min (set (map vz vs)), Max (set (map vz vs))]])"

datatype SceneNode = SceneNode
  (sn_name: string) (sn_visible: bool) (sn_isMesh: bool) (sn_uuid: string)
  (sn_matrix: Matrix4) (sn_vertices: "real Vector3 list") (sn_children: "SceneNode list")

fun object3D :: "SceneNode \<Rightarrow> Object3D" where
  "object3D (SceneNode n v m u M vs cs) =
     Object3D n v m u (map (applyMatrix4 M) (localBoxCorners vs)) (map object3D cs)"

fun sceneVertices :: "SceneNode \<Rightarrow> real Vector3 list" where
  "sceneVertices (SceneNode n v m u M vs cs) =
     map (applyMatrix4 M) vs @ concat (map sceneVertices cs)"

section \<open>Marker discovery\<close>

record Marker =
  m_id :: string
  m_name :: string
  m_center :: "num Vector3"
  m_radius :: num
  m_description :: "string option"
  m_image :: "string option"

text \<open>Candidate gathering (page.tsx, lines 88-98).\<close>

definition gatherCandidates :: "Object3D \<Rightarrow> Object3D list" where
  "gatherCandidates scene =
     (let candidates = filter (\<lambda>c. obj_name c \<noteq> [] \<and> obj_visible c) (obj_children scene) in
      if length candidates = 0
      then candidates @ filter (\<lambda>ob. obj_name ob \<noteq> [] \<and> obj_visible ob \<and> obj_isMesh ob) (traverse scene)
      else candidates)"

text \<open>\<^verbatim>\<open>obj.name?.trim() || "Group"\<close>: the empty string is falsy.\<close>

definition safeName :: "Object3D \<Rightarrow> string" where
  "safeName obj = (if trim (obj_name obj) \<noteq> [] then trim (obj_name obj) else ''Group'')"

definition newMarker :: "string option \<Rightarrow> Object3D \<Rightarrow> Sphere \<Rightarrow> Marker" where
  "newMarker BASE_PATH obj sphereInfo =
     \<lparr>m_id = obj_uuid obj,
      m_name = safeName obj,
      m_center = center sphereInfo,
      m_radius = radius sphereInfo,
      m_description = Some (''Information about '' @ safeName obj @ ''.''),
      m_image = Some (buildPublicUrl BASE_PATH ''next.svg'')\<rparr>"

text \<open>
  The loop over the candidates (page.tsx, lines 100-121), with the list \<open>markers\<close> and
  the set \<open>usedNames\<close> as they stand when the remaining candidates are reached. Each
  \<^verbatim>\<open>continue\<close> is a call on the rest with both unchanged; \<^verbatim>\<open>break\<close> returns the list.
\<close>

fun collectMarkers ::
  "string option \<Rightarrow> num Vector3 \<Rightarrow> Object3D list \<Rightarrow> Marker list \<Rightarrow> string set \<Rightarrow> Marker list" where
  "collectMarkers BASE_PATH pos [] markers usedNames = markers"
| "collectMarkers BASE_PATH pos (obj # rest) markers usedNames =
     (case computeObjectSphere pos obj of
        None \<Rightarrow> collectMarkers BASE_PATH pos rest markers usedNames
      | Some sphereInfo \<Rightarrow>
          if \<not> isFinite (radius sphereInfo) \<or> num_le (radius sphereInfo) (Fin (2/100))
          then collectMarkers BASE_PATH pos rest markers usedNames
          else if safeName obj \<in> usedNames
          then collectMarkers BASE_PATH pos rest markers usedNames
          else (let markers' = markers @ [newMarker BASE_PATH obj sphereInfo] in
                if length markers' \<ge> 20 then markers'
                else collectMarkers BASE_PATH pos rest markers' (insert (safeName obj) usedNames)))"

text \<open>
  The override (page.tsx, lines 123-136). \<^verbatim>\<open>markers.find\<close> returns the first marker
  that matches; the markers of the list are distinct objects, so the assignments to
  \<open>target\<close> change the list at that one index. \<^verbatim>\<open>!target.description\<close> holds for a
  missing description and for the empty string.
\<close>

fun findIndex :: "('a \<Rightarrow> bool) \<Rightarrow> 'a list \<Rightarrow> nat option" where
  "findIndex P [] = None"
| "findIndex P (x # xs) = (if P x then Some 0 else map_option Suc (findIndex P xs))"

definition overrideName :: string where
  "overrideName = ''Power Aisle''"

definition overrideImage :: "string option \<Rightarrow> string" where
  "overrideImage BASE_PATH = buildPublicUrl BASE_PATH ''markers/power-aisle.png''"

definition overrideTarget :: "Marker list \<Rightarrow> nat option" where
  "overrideTarget markers =
     (case findIndex (\<lambda>m. toLowerCase (m_name m) = toLowerCase overrideName) markers of
        Some i \<Rightarrow> Some i
      | None \<Rightarrow> if length markers > 0 then Some 0 else None)"

definition promote :: "string option \<Rightarrow> Marker \<Rightarrow> Marker" where
  "promote BASE_PATH target =
     (let t1 = target\<lparr>m_name := overrideName\<rparr>;
          t2 = t1\<lparr>m_image := Some (overrideImage BASE_PATH)\<rparr>
      in if m_description t2 = None \<or> m_description t2 = Some []
         then t2\<lparr>m_description := Some ''High-capacity aisle for main power distribution.''\<rparr>
         else t2)"

definition applyOverride :: "string option \<Rightarrow> Marker list \<Rightarrow> Marker list" where
  "applyOverride BASE_PATH markers =
     (case overrideTarget markers of
        None \<Rightarrow> markers
      | Some i \<Rightarrow> markers[i := promote BASE_PATH (markers ! i)])"

section \<open>The layout effect of HotelModel\<close>

record BoundsInfo =
  b_radius :: num
  b_center :: "num Vector3"

record EffectResult =
  groupPosition :: "num Vector3"
  onBounds :: BoundsInfo
  onMarkers :: "Marker list"

text \<open>
  The layout effect (page.tsx, lines 67-140). \<open>groupRef\<close> is the position of the group
  that holds the scene, \<open>None\<close> when the ref is not set, in which case the effect returns
  at once and reports nothing. The clone sits in a fresh group without a parent, so its
  box is taken at the zero position. The result holds the position the group is left
  with and the arguments of the two callbacks.
\<close>

definition discoverMarkers :: "string option \<Rightarrow> num Vector3 \<Rightarrow> Object3D \<Rightarrow> Marker list" where
  "discoverMarkers BASE_PATH pos scene =
     applyOverride BASE_PATH (collectMarkers BASE_PATH pos (gatherCandidates scene) [] {})"

definition layoutEffect :: "string option \<Rightarrow> Object3D \<Rightarrow> num Vector3 option \<Rightarrow> EffectResult option" where
  "layoutEffect BASE_PATH scene groupRef =
     (case groupRef of
        None \<Rightarrow> None
      | Some _ \<Rightarrow>
          (let box = setFromObject (Vector3 (Fin 0) (Fin 0) (Fin 0)) scene;
               sphere = getBoundingSphere box;
               minY = vy (box_min box);
               position = Vector3 (Fin 0) (neg minY) (Fin 0);
               markers = discoverMarkers BASE_PATH position scene
           in Some \<lparr>groupPosition = position,
                    onBounds = \<lparr>b_radius = radius sphere,
                                 b_center = Vector3 (vx (center sphere)) (Fin 0) (vz (center sphere))\<rparr>,
                    onMarkers = markers\<rparr>))"

section \<open>The camera flight\<close>

text \<open>
  The flight takes finite numbers: positions, distances, durations and frame deltas are
  reals. \<open>isFinite\<close> of the length of a real vector therefore always holds; the test of
  the source is kept where it stands. \<open>flyTo\<close> is computed exactly; the frame callback,
  whose control flow depends on the rounding of the elapsed time, rounds every
  arithmetic result to a double.
\<close>

definition subVectors :: "real Vector3 \<Rightarrow> real Vector3 \<Rightarrow> real Vector3" where
  "subVectors a b = Vector3 (vx a - vx b) (vy a - vy b) (vz a - vz b)"

definition vlength :: "real Vector3 \<Rightarrow> real" where
  "vlength v = sqrt (vx v * vx v + vy v * vy v + vz v * vz v)"

text \<open>\<^verbatim>\<open>normalize()\<close> divides by \<^verbatim>\<open>this.length() || 1\<close>.\<close>

definition normalize :: "real Vector3 \<Rightarrow> real Vector3" where
  "normalize v = (let l = (if vlength v = 0 then 1 else vlength v)
                  in Vector3 (vx v / l) (vy v / l) (vz v / l))"

definition addScaledVector :: "real Vector3 \<Rightarrow> real Vector3 \<Rightarrow> real \<Rightarrow> real Vector3" where
  "addScaledVector a v s = Vector3 (vx a + vx v * s) (vy a + vy v * s) (vz a + vz v * s)"

text \<open>
  The double nearest to a real: 53 significant bits, ties to the even significand.
  \<open>binade x\<close> is the exponent \<open>e\<close> with \<open>2^e \<le> |x| < 2^(e+1)\<close>, and the doubles of that
  binade are the multiples of \<open>2^(e-52)\<close>. The range of the exponent is not bounded:
  overflow to an infinity and the coarser spacing of subnormal numbers are left out.
  On doubles \<open>a\<close> and \<open>b\<close>, \<open>fl (a + b)\<close> is the sum as JavaScript computes it, and
  likewise for the difference, the product and the quotient.
\<close>

definition binade :: "real \<Rightarrow> int" where
  "binade x = \<lfloor>log 2 \<bar>x\<bar>\<rfloor>"

definition roundEven :: "real \<Rightarrow> int" where
  "roundEven y =
     (let f = \<lfloor>y\<rfloor>; r = y - of_int f
      in if r < 1/2 then f else if 1/2 < r then f + 1 else if even f then f else f + 1)"

definition fl :: "real \<Rightarrow> real" where
  "fl x = (if x = 0 then 0
           else of_int (roundEven (x / 2 powr (of_int (binade x) - 52)))
                  * 2 powr (of_int (binade x) - 52))"

text \<open>\<^verbatim>\<open>lerpVectors\<close> of the engine: \<^verbatim>\<open>this.x = v1.x + (v2.x - v1.x) * alpha\<close>, per axis.\<close>

definition lerpVectors :: "real Vector3 \<Rightarrow> real Vector3 \<Rightarrow> real \<Rightarrow> real Vector3" where
  "lerpVectors v1 v2 alpha =
     Vector3 (fl (vx v1 + fl (fl (vx v2 - vx v1) * alpha)))
             (fl (vy v1 + fl (fl (vy v2 - vy v1) * alpha)))
             (fl (vz v1 + fl (fl (vz v2 - vz v1) * alpha)))"

record Controls =
  target :: "real Vector3"
  minDistance :: real

record Flight =
  startPos :: "real Vector3"
  startTarget :: "real Vector3"
  endPos :: "real Vector3"
  endTarget :: "real Vector3"
  t :: real
  d :: real
  onComplete :: "nat option"

text \<open>
  What a frame does to the outside, in the order in which it does it. A continuation is
  known by a number, and \<open>Invoke c\<close> is its call. \<open>ControlsUpdate\<close> is the call of
  \<^verbatim>\<open>controlsRef.current.update()\<close>, whose body belongs to the orbit controls and is
  not part of the sources: the camera position of a \<open>View\<close> is the one the frame
  callback writes, and what the controls make of it within their own limits is theirs.
\<close>

datatype event =
    SetCameraPosition "real Vector3"
  | SetControlsTarget "real Vector3"
  | ControlsUpdate
  | CameraLookAt "real Vector3"
  | Invoke nat

record View =
  cameraPosition :: "real Vector3"
  controlsRef :: "Controls option"
  animRef :: "Flight option"
  events :: "event list"

text \<open>
  The frame callback of \<open>useFlyTo\<close> (page.tsx, lines 163-186), each sum, difference,
  product and quotient rounded by \<open>fl\<close>; \<^verbatim>\<open>Math.min\<close> and the comparison are exact. A
  flight record is only ever made by \<open>flyTo\<close>, whose duration is at least \<open>0.2\<close>, so the
  division is by a positive number on every record the program can hold.
\<close>

definition advance :: "View \<Rightarrow> real \<Rightarrow> View" where
  "advance s delta =
     (case animRef s of
        None \<Rightarrow> s
      | Some a0 \<Rightarrow>
          (let a = a0\<lparr>t := min (fl (t a0 + delta)) (d a0)\<rparr>;
               k = fl (t a / d a);
               e = fl (fl (k * k) * fl (3 - fl (2 * k)));
               pos = lerpVectors (startPos a) (endPos a) e;
               tgt = lerpVectors (startTarget a) (endTarget a) e;
               s1 = s\<lparr>animRef := Some a, cameraPosition := pos,
                      events := events s @ [SetCameraPosition pos]\<rparr>;
               s2 = (case controlsRef s1 of
                       Some c \<Rightarrow> s1\<lparr>controlsRef := Some (c\<lparr>target := tgt\<rparr>),
                                     events := events s1 @ [SetControlsTarget tgt, ControlsUpdate]\<rparr>
                     | None \<Rightarrow> s1\<lparr>events := events s1 @ [CameraLookAt tgt]\<rparr>)
           in if t a \<ge> d a
              then (let cb = onComplete a; s3 = s2\<lparr>animRef := None\<rparr>
                    in case cb of Some c \<Rightarrow> s3\<lparr>events := events s3 @ [Invoke c]\<rparr> | None \<Rightarrow> s3)
              else s2))"

fun advances :: "View \<Rightarrow> real list \<Rightarrow> View" where
  "advances s [] = s"
| "advances s (delta # deltas) = advances (advance s delta) deltas"

text \<open>
  \<open>flyTo\<close> (page.tsx, lines 188-209). \<open>duration\<close> is \<open>None\<close> when the argument is left
  out, and then takes the default \<open>1.2\<close>.
\<close>

definition flyDirection :: "View \<Rightarrow> real Vector3" where
  "flyDirection s =
     (let dir = normalize (subVectors (cameraPosition s)
                  (case controlsRef s of Some c \<Rightarrow> target c | None \<Rightarrow> Vector3 0 0 0))
      in if \<not> isFinite (Fin (vlength dir)) \<or> vlength dir = 0
         then normalize (Vector3 1 (1/2) 1) else dir)"

definition flyTo :: "View \<Rightarrow> real Vector3 \<Rightarrow> real \<Rightarrow> real option \<Rightarrow> nat option \<Rightarrow> View" where
  "flyTo s endTarget' distance duration' onComplete' =
     (let duration = (case duration' of None \<Rightarrow> 12/10 | Some x \<Rightarrow> x);
          dir = flyDirection s;
          minD = (case controlsRef s of Some c \<Rightarrow> minDistance c | None \<Rightarrow> 0);
          endDistance = max distance (minD + 1/100);
          endPos' = addScaledVector endTarget' dir endDistance;
          startPos' = cameraPosition s;
          startTarget' = (case controlsRef s of Some c \<Rightarrow> target c | None \<Rightarrow> Vector3 0 0 0)
      in s\<lparr>animRef := Some \<lparr>startPos = startPos', startTarget = startTarget', endPos = endPos',
                              endTarget = endTarget', t = 0, d = max (2/10) duration,
                              onComplete = onComplete'\<rparr>\<rparr>)"

section \<open>Discovery as the specification words it\<close>

text \<open>
  Steps 2 to 4 of section 4.3 of the specification, each as a function of its own, to
  compare the loop with: \<open>accepts\<close> is the filter (a candidate with finite geometry
  and a radius above \<open>0.02\<close>), \<open>firstByName\<close> the deduplication (a name used earlier
  in iteration order discards the later candidate), and the cap is \<open>take 20\<close>.
  \<open>markerOf\<close> is the marker the loop builds from an accepted candidate.
\<close>

definition accepts :: "num Vector3 \<Rightarrow> Object3D \<Rightarrow> bool" where
  "accepts pos obj =
     (case computeObjectSphere pos obj of
        None \<Rightarrow> False
      | Some s \<Rightarrow> isFinite (radius s) \<and> num_lt (Fin (2/100)) (radius s))"

fun firstByName :: "string set \<Rightarrow> Object3D list \<Rightarrow> Object3D list" where
  "firstByName used [] = []"
| "firstByName used (obj # rest) =
     (if safeName obj \<in> used then firstByName used rest
      else obj # firstByName (insert (safeName obj) used) rest)"

definition markerOf :: "string option \<Rightarrow> num Vector3 \<Rightarrow> Object3D \<Rightarrow> Marker" where
  "markerOf BASE_PATH pos obj = newMarker BASE_PATH obj (the (computeObjectSphere pos obj))"

text \<open>A name that is not empty and that \<open>trim\<close> empties.\<close>

definition blankName :: "Object3D \<Rightarrow> bool" where
  "blankName obj = (obj_name obj \<noteq> [] \<and> trim (obj_name obj) = [])"

section \<open>What a frame of a flight writes\<close>




definition eased :: "Flight \<Rightarrow> real \<Rightarrow> real" where
  "eased a tm = (let k = fl (tm / d a) in fl (fl (k * k) * fl (3 - fl (2 * k))))"



text \<open>
  \<open>reaches dur tm deltas\<close>: the elapsed time, accumulated from \<open>tm\<close> frame by frame as the
  frame callback does (\<open>fl (tm + delta)\<close>, cut at \<open>dur\<close>), reaches \<open>dur\<close> within the frames
  \<open>deltas\<close>.
\<close>

fun reaches :: "real \<Rightarrow> real \<Rightarrow> real list \<Rightarrow> bool" where
  "reaches dur tm [] = False"
| "reaches dur tm (delta # deltas) = (dur \<le> fl (tm + delta) \<or> reaches dur (fl (tm + delta)) deltas)"


text \<open>The minimum orbit distance \<open>flyTo\<close> reads: that of the controls, or \<open>0\<close> without controls.\<close>

definition minOrbitDistance :: "View \<Rightarrow> real" where
  "minOrbitDistance s = (case controlsRef s of Some c \<Rightarrow> minDistance c | None \<Rightarrow> 0)"

text \<open>The look-at target \<open>flyTo\<close> reads: that of the controls, or the origin without controls.\<close>

definition lookAtPoint :: "View \<Rightarrow> real Vector3" where
  "lookAtPoint s = (case controlsRef s of Some c \<Rightarrow> target c | None \<Rightarrow> Vector3 0 0 0)"

definition requestedDuration :: "real option \<Rightarrow> real" where
  "requestedDuration duration' = (case duration' of None \<Rightarrow> 12/10 | Some x \<Rightarrow> x)"

section \<open>Example inputs\<close>

definition zeroPos :: "num Vector3" where
  "zeroPos = Vector3 (Fin 0) (Fin 0) (Fin 0)"

text \<open>
  The example of section 8 of the specification, lifted two units above the ground: two
  nodes named Lobby with radius \<open>2\<close> and \<open>1.5\<close>, and a point-like PowerRoom.
\<close>

definition lobbyScene :: Object3D where
  "lobbyScene = Object3D ''Scene'' True False ''u0'' []
     [Object3D ''Lobby'' True True ''u1'' [Vector3 0 2 0, Vector3 4 2 0] [],
      Object3D ''Lobby'' True True ''u2'' [Vector3 0 3 0, Vector3 3 3 0] [],
      Object3D ''PowerRoom'' True True ''u3'' [Vector3 1 5 0] []]"

definition twoAisles :: Object3D where
  "twoAisles = Object3D ''Scene'' True False ''u0'' []
     [Object3D ''power aisle'' True True ''u1'' [Vector3 0 0 0, Vector3 2 0 0] [],
      Object3D ''Power Aisle'' True True ''u2'' [Vector3 4 0 0, Vector3 6 0 0] []]"

definition emptyScene :: Object3D where
  "emptyScene = Object3D ''Scene'' True False ''u0'' [] [Object3D ''Lobby'' True False ''u1'' [] []]"

definition blankNode :: Object3D where
  "blankNode = Object3D ''  '' True True ''u1'' [Vector3 0 0 0, Vector3 2 0 0] []"

definition blankScene :: Object3D where
  "blankScene = Object3D ''Scene'' True False ''u0'' []
     [blankNode, Object3D [CHR 0x09] True True ''u2'' [Vector3 4 0 0, Vector3 6 0 0] []]"

text \<open>
  A triangular mesh turned about the Z axis (cosine \<open>3/5\<close>, sine \<open>4/5\<close>) under a root
  without geometry.
\<close>

definition tiltedTriangle :: SceneNode where
  "tiltedTriangle = SceneNode ''Scene'' True False ''u0'' (Matrix4 1 0 0 0 0 1 0 0 0 0 1 0) []
     [SceneNode ''Roof'' True True ''u1'' (Matrix4 (3/5) (- 4/5) 0 0 (4/5) (3/5) 0 0 0 0 1 0)
        [Vector3 0 0 0, Vector3 (- 1) 0 0, Vector3 0 (- 1) 0] []]"

definition lobbyMarker :: Marker where
  "lobbyMarker = \<lparr>m_id = ''u1'', m_name = ''Lobby'', m_center = Vector3 (Fin 2) (Fin 0) (Fin 0),
                   m_radius = Fin 2, m_description = Some ''Information about Lobby.'',
                   m_image = Some ''/next.svg''\<rparr>"

definition aisleMarker :: Marker where
  "aisleMarker = \<lparr>m_id = ''u2'', m_name = ''POWER AISLE'', m_center = Vector3 (Fin 5) (Fin 0) (Fin 0),
                   m_radius = Fin 1, m_description = Some ''Information about POWER AISLE.'',
                   m_image = Some ''/next.svg''\<rparr>"

definition restView :: View where
  "restView = \<lparr>cameraPosition = Vector3 0 0 2, controlsRef = None, animRef = None, events = []\<rparr>"

definition orbitView :: View where
  "orbitView = \<lparr>cameraPosition = Vector3 0 0 2,
                 controlsRef = Some \<lparr>target = Vector3 0 0 0, minDistance = 1/2\<rparr>,
                 animRef = None, events = []\<rparr>"

section \<open>Lemmas on the bounds\<close>

lemma foldl_expand_min_y:
  "vy (box_min (foldl expandByPoint b ps)) = foldl Math_min (vy (box_min b)) (map vy ps)"
  by (induction ps arbitrary: b) (simp_all add: expandByPoint_def)

lemma foldl_Math_min_Fin:
  "foldl Math_min (Fin m) (map Fin ys) = Fin (Min (insert m (set ys)))"
proof (induction ys arbitrary: m)
  case Nil
  then show ?case by simp
next
  case (Cons y ys)
  have "Math_min (Fin m) (Fin y) = Fin (min m y)"
    by (simp add: min_def)
  moreover have "Min (insert (min m y) (set ys)) = Min (insert m (insert y (set ys)))"
    by (cases "set ys = {}") (auto simp: min_def)
  ultimately show ?case
    using Cons.IH[of "min m y"] by simp
qed

lemma foldl_Math_min_PInf:
  assumes "ys \<noteq> []"
  shows "foldl Math_min PInf (map Fin ys) = Fin (Min (set ys))"
proof (cases ys)
  case Nil
  with assms show ?thesis by simp
next
  case (Cons y ys')
  then show ?thesis
    using foldl_Math_min_Fin[of y ys'] by simp
qed

lemma vy_worldPoints:
  "map vy (worldPoints (Vector3 a (Fin c) e) obj) = map Fin (map (\<lambda>p. vy p + c) (subtreePoints obj))"
  by (simp add: worldPoints_def toWorld_def)

lemma minY_setFromObject:
  assumes "subtreePoints obj \<noteq> []"
  shows "vy (box_min (setFromObject (Vector3 a (Fin c) e) obj)) =
         Fin (Min (set (map (\<lambda>p. vy p + c) (subtreePoints obj))))"
proof -
  have "vy (box_min (setFromObject (Vector3 a (Fin c) e) obj)) =
        foldl Math_min PInf (map Fin (map (\<lambda>p. vy p + c) (subtreePoints obj)))"
    unfolding setFromObject_def foldl_expand_min_y vy_worldPoints by (simp add: makeEmpty_def)
  also have "\<dots> = Fin (Min (set (map (\<lambda>p. vy p + c) (subtreePoints obj))))"
    using assms by (intro foldl_Math_min_PInf) simp
  finally show ?thesis .
qed

lemma setFromObject_no_points:
  assumes "subtreePoints obj = []"
  shows "setFromObject pos obj = makeEmpty"
  using assms by (simp add: setFromObject_def worldPoints_def)

lemma layoutEffect_position:
  assumes "layoutEffect B scene (Some p0) = Some r"
  shows "groupPosition r = Vector3 (Fin 0) (neg (vy (box_min (setFromObject (Vector3 (Fin 0) (Fin 0) (Fin 0)) scene)))) (Fin 0)"
  using assms by (auto simp: layoutEffect_def Let_def)

lemma no_geometry_position:
  assumes "subtreePoints scene = []" and "layoutEffect B scene (Some p0) = Some r"
  shows "groupPosition r = Vector3 (Fin 0) NInf (Fin 0)"
  using layoutEffect_position[OF assms(2)] setFromObject_no_points[OF assms(1)]
  by (simp add: makeEmpty_def)

lemma layoutEffect_markers:
  assumes "layoutEffect B scene (Some p0) = Some r"
  shows "onMarkers r = discoverMarkers B (groupPosition r) scene"
  using assms by (auto simp: layoutEffect_def Let_def)

lemma layoutEffect_bounds:
  assumes "layoutEffect B scene (Some p0) = Some r"
  shows "onBounds r =
     \<lparr>b_radius = radius (getBoundingSphere (setFromObject (Vector3 (Fin 0) (Fin 0) (Fin 0)) scene)),
      b_center = Vector3 (vx (center (getBoundingSphere (setFromObject (Vector3 (Fin 0) (Fin 0) (Fin 0)) scene))))
                   (Fin 0) (vz (center (getBoundingSphere (setFromObject (Vector3 (Fin 0) (Fin 0) (Fin 0)) scene))))\<rparr>"
  using assms by (auto simp: layoutEffect_def Let_def)

lemma layoutEffect_independent:
  "layoutEffect B scene (Some p0) = layoutEffect B scene (Some p1)"
  by (simp add: layoutEffect_def)

lemma layoutEffect_runs: "layoutEffect B scene (Some p0) = Some (the (layoutEffect B scene (Some p0)))"
  by (simp add: layoutEffect_def Let_def)

lemma box_rests_on_ground:
  assumes pts: "subtreePoints scene \<noteq> []"
      and eff: "layoutEffect BASE_PATH scene (Some p0) = Some r"
  shows "groupPosition r = Vector3 (Fin 0) (Fin (- Min (set (map vy (subtreePoints scene))))) (Fin 0) \<and>
         (\<exists>p\<in>set (worldPoints (groupPosition r) scene). vy p = Fin 0) \<and>
         (\<forall>p\<in>set (worldPoints (groupPosition r) scene). \<exists>y. vy p = Fin y \<and> 0 \<le> y) \<and>
         vy (box_min (setFromObject (groupPosition r) scene)) = Fin 0 \<and>
         layoutEffect BASE_PATH scene (Some (groupPosition r)) = Some r"
proof -
  let ?ys = "map vy (subtreePoints scene)"
  let ?m = "Min (set ?ys)"
  have ne: "set ?ys \<noteq> {}"
    using pts by simp
  have "vy (box_min (setFromObject (Vector3 (Fin 0) (Fin 0) (Fin 0)) scene)) =
        Fin (Min (set (map (\<lambda>p. vy p + 0) (subtreePoints scene))))"
    using pts by (rule minY_setFromObject)
  then have minY: "vy (box_min (setFromObject (Vector3 (Fin 0) (Fin 0) (Fin 0)) scene)) = Fin ?m"
    by simp
  have pos: "groupPosition r = Vector3 (Fin 0) (Fin (- ?m)) (Fin 0)"
    using layoutEffect_position[OF eff] minY by simp
  have mem: "?m \<in> set ?ys"
    using Min_in[OF _ ne] by simp
  then obtain q where q: "q \<in> set (subtreePoints scene)" "vy q = ?m"
    by auto
  have low: "?m \<le> vy q'" if "q' \<in> set (subtreePoints scene)" for q'
    using that by (intro Min_le) auto
  have c1: "\<exists>p\<in>set (worldPoints (groupPosition r) scene). vy p = Fin 0"
  proof -
    have "toWorld (groupPosition r) q \<in> set (worldPoints (groupPosition r) scene)"
      using q(1) by (simp add: worldPoints_def)
    moreover have "vy (toWorld (groupPosition r) q) = Fin 0"
      using q(2) by (simp add: pos toWorld_def)
    ultimately show ?thesis by blast
  qed
  have c2: "\<forall>p\<in>set (worldPoints (groupPosition r) scene). \<exists>y. vy p = Fin y \<and> 0 \<le> y"
  proof
    fix p
    assume "p \<in> set (worldPoints (groupPosition r) scene)"
    then obtain q' where q': "q' \<in> set (subtreePoints scene)" "p = toWorld (groupPosition r) q'"
      by (auto simp: worldPoints_def)
    then show "\<exists>y. vy p = Fin y \<and> 0 \<le> y"
      using low[OF q'(1)] by (simp add: pos toWorld_def)
  qed
  have "vy (box_min (setFromObject (groupPosition r) scene)) =
        Fin (Min (set (map (\<lambda>p. vy p + (- ?m)) (subtreePoints scene))))"
    unfolding pos using pts by (rule minY_setFromObject)
  also have "Min (set (map (\<lambda>p. vy p + (- ?m)) (subtreePoints scene))) = 0"
  proof (rule Min_eqI)
    show "finite (set (map (\<lambda>p. vy p + (- ?m)) (subtreePoints scene)))"
      by simp
    show "0 \<le> y" if "y \<in> set (map (\<lambda>p. vy p + (- ?m)) (subtreePoints scene))" for y
    proof -
      from that obtain q' where "q' \<in> set (subtreePoints scene)" "y = vy q' - ?m"
        by auto
      then show ?thesis
        using low[of q'] by simp
    qed
    show "0 \<in> set (map (\<lambda>p. vy p + (- ?m)) (subtreePoints scene))"
      using q by force
  qed
  finally have c3: "vy (box_min (setFromObject (groupPosition r) scene)) = Fin 0" .
  have c4: "layoutEffect BASE_PATH scene (Some (groupPosition r)) = Some r"
    using eff layoutEffect_independent[of BASE_PATH scene "groupPosition r" p0] by simp
  from pos c1 c2 c3 c4 show ?thesis by blast
qed

lemmas scene_eval = discoverMarkers_def gatherCandidates_def computeObjectSphere_def setFromObject_def
  worldPoints_def toWorld_def makeEmpty_def expandByPoint_def getBoundingSphere_def isEmpty_def
  vec_length_def sub_def safeName_def trim_def isWhiteSpace_def newMarker_def applyOverride_def
  overrideTarget_def toLowerCase_def toLowerChar_def upperChars_def lowerChars_def overrideName_def
  promote_def overrideImage_def buildPublicUrl_def Let_def layoutEffect_def zeroPos_def

section \<open>Normalization\<close>

text \<open>
  C1. The layout effect takes \<open>minY\<close> from the box of the clone, and the box counts a
  mesh by the corners of its local box carried through its transform, not by its
  vertices. What the effect puts on the ground is therefore the box
  (\<open>box_rests_on_ground\<close>); a mesh that is turned has the lowest corner of that box below
  all of its vertices. For the turned triangle the box reaches down to \<open>-7/5\<close> and the
  lowest vertex to \<open>-4/5\<close>: the group is raised by \<open>7/5\<close> and the lowest vertex of the
  world-space geometry ends at height \<open>3/5\<close>, where the claim, and the comments of the
  effect (fit its bottom to \<open>y = 0\<close>), have \<open>0\<close>.
\<close>

theorem turned_mesh_floats:
  "map vy (sceneVertices tiltedTriangle) = [0, - 4/5, - 3/5] \<and>
   vy (box_min (setFromObject zeroPos (object3D tiltedTriangle))) = Fin (- 7/5) \<and>
   map_option groupPosition (layoutEffect None (object3D tiltedTriangle) (Some zeroPos))
     = Some (Vector3 (Fin 0) (Fin (7/5)) (Fin 0)) \<and>
   map (vy \<circ> toWorld (Vector3 (Fin 0) (Fin (7/5)) (Fin 0))) (sceneVertices tiltedTriangle)
     = [Fin (7/5), Fin (3/5), Fin (4/5)]"
proof -
  let ?r = "the (layoutEffect None (object3D tiltedTriangle) (Some zeroPos))"
  have v: "map vy (sceneVertices tiltedTriangle) = [0, - 4/5, - 3/5]"
    by (simp add: tiltedTriangle_def applyMatrix4_def)
  have pts: "subtreePoints (object3D tiltedTriangle) =
      [Vector3 (1/5) (- 7/5) 0, Vector3 (1/5) (- 7/5) 0, Vector3 (- 3/5) (- 4/5) 0, Vector3 (- 3/5) (- 4/5) 0,
       Vector3 (4/5) (- 3/5) 0, Vector3 (4/5) (- 3/5) 0, Vector3 0 0 0, Vector3 0 0 0]"
    by (simp add: tiltedTriangle_def applyMatrix4_def localBoxCorners_def)
  have b: "vy (box_min (setFromObject zeroPos (object3D tiltedTriangle))) = Fin (- 7/5)"
    by (simp add: setFromObject_def worldPoints_def pts toWorld_def zeroPos_def makeEmpty_def
          expandByPoint_def)
  have h: "layoutEffect None (object3D tiltedTriangle) (Some zeroPos) = Some ?r"
    by (rule layoutEffect_runs)
  have "groupPosition ?r = Vector3 (Fin 0) (Fin (7/5)) (Fin 0)"
    using layoutEffect_position[OF h] b by (simp add: zeroPos_def)
  then have g: "map_option groupPosition (layoutEffect None (object3D tiltedTriangle) (Some zeroPos))
     = Some (Vector3 (Fin 0) (Fin (7/5)) (Fin 0))"
    using h by (metis option.simps(9))
  have w: "map (vy \<circ> toWorld (Vector3 (Fin 0) (Fin (7/5)) (Fin 0))) (sceneVertices tiltedTriangle)
     = [Fin (7/5), Fin (3/5), Fin (4/5)]"
    by (simp add: tiltedTriangle_def applyMatrix4_def toWorld_def)
  show ?thesis
    using v b g w by (intro conjI)
qed

text \<open>
  C5. An asset without geometry: the layout effect has no test for an empty box. It reads
  \<open>+Infinity\<close> as \<open>minY\<close> and sets the position of the group to \<open>(0, -Infinity, 0)\<close>,
  where the claim has the position left as it was; the sphere it reports is the one of
  the empty box, with radius \<open>-1\<close>. \<open>computeObjectSphere\<close>, a few lines above in the same
  file, does test the box for finiteness before it uses it.
\<close>

theorem empty_asset_is_moved:
  "subtreePoints emptyScene = [] \<and>
   map_option groupPosition (layoutEffect None emptyScene (Some zeroPos)) = Some (Vector3 (Fin 0) NInf (Fin 0)) \<and>
   map_option onBounds (layoutEffect None emptyScene (Some zeroPos)) =
     Some \<lparr>b_radius = Fin (- 1), b_center = Vector3 (Fin 0) (Fin 0) (Fin 0)\<rparr> \<and>
   map_option onMarkers (layoutEffect None emptyScene (Some zeroPos)) = Some []"
  by (simp add: scene_eval emptyScene_def)

text \<open>
  C6, as the claim states it, fails: the centre reported for the lobby scene has Y equal
  to \<open>0\<close>, while the sphere of the unmodified clone has its centre at height \<open>3.5\<close>.
\<close>

theorem reported_center_counterexample:
  "vy (center (getBoundingSphere (setFromObject zeroPos lobbyScene))) = Fin (7/2) \<and>
   map_option (vy \<circ> b_center \<circ> onBounds) (layoutEffect None lobbyScene (Some zeroPos)) = Some (Fin 0) \<and>
   map_option (vy \<circ> b_center \<circ> onBounds) (layoutEffect None lobbyScene (Some zeroPos))
     \<noteq> Some (vy (center (getBoundingSphere (setFromObject zeroPos lobbyScene))))"
  by (simp add: scene_eval lobbyScene_def)

text \<open>
  C6, amended. The bounding sphere reported to the caller has the radius of the sphere of
  the unmodified clone and the X and Z of its centre, and the Y of the reported centre is
  \<open>0\<close>: the layout effect itself projects the centre onto the ground plane before it
  calls \<open>onBounds\<close>.
\<close>

theorem reported_center_projected:
  assumes "layoutEffect BASE_PATH scene (Some p0) = Some r"
  shows "b_radius (onBounds r) = radius (getBoundingSphere (setFromObject (Vector3 (Fin 0) (Fin 0) (Fin 0)) scene)) \<and>
         vx (b_center (onBounds r)) = vx (center (getBoundingSphere (setFromObject (Vector3 (Fin 0) (Fin 0) (Fin 0)) scene))) \<and>
         vz (b_center (onBounds r)) = vz (center (getBoundingSphere (setFromObject (Vector3 (Fin 0) (Fin 0) (Fin 0)) scene))) \<and>
         vy (b_center (onBounds r)) = Fin 0"
  by (simp add: layoutEffect_bounds[OF assms])

theorem reported_center_projected_witness:
  "map_option onBounds (layoutEffect None lobbyScene (Some zeroPos)) =
     Some \<lparr>b_radius = Fin (5/2), b_center = Vector3 (Fin 2) (Fin 0) (Fin 0)\<rparr> \<and>
   getBoundingSphere (setFromObject (Vector3 (Fin 0) (Fin 0) (Fin 0)) lobbyScene) =
     \<lparr>center = Vector3 (Fin 2) (Fin (7/2)) (Fin 0), radius = Fin (5/2)\<rparr>"
proof -
  let ?r = "the (layoutEffect None lobbyScene (Some zeroPos))"
  have h: "layoutEffect None lobbyScene (Some zeroPos) = Some ?r"
    by (rule layoutEffect_runs)
  have s: "getBoundingSphere (setFromObject (Vector3 (Fin 0) (Fin 0) (Fin 0)) lobbyScene) =
     \<lparr>center = Vector3 (Fin 2) (Fin (7/2)) (Fin 0), radius = Fin (5/2)\<rparr>"
    by (simp add: scene_eval lobbyScene_def)
  have "onBounds ?r = \<lparr>b_radius = Fin (5/2), b_center = Vector3 (Fin 2) (Fin 0) (Fin 0)\<rparr>"
    using reported_center_projected[OF h] s by (cases "onBounds ?r"; cases "b_center (onBounds ?r)") simp
  then have "map_option onBounds (layoutEffect None lobbyScene (Some zeroPos)) =
     Some \<lparr>b_radius = Fin (5/2), b_center = Vector3 (Fin 2) (Fin 0) (Fin 0)\<rparr>"
    using h by (metis option.simps(9))
  with s show ?thesis by blast
qed


section \<open>Lemmas on the discovery\<close>

lemma accepted_radius:
  assumes "isFinite r"
  shows "(\<not> num_le r (Fin c)) = num_lt (Fin c) r"
  using assms by (cases r) auto

lemma accepts_iff:
  "accepts pos obj =
     (\<exists>s. computeObjectSphere pos obj = Some s \<and> \<not> (\<not> isFinite (radius s) \<or> num_le (radius s) (Fin (2/100))))"
proof (cases "computeObjectSphere pos obj")
  case None
  then show ?thesis by (simp add: accepts_def)
next
  case (Some s)
  then show ?thesis
    by (cases "radius s") (simp_all add: accepts_def not_le)
qed

lemma collectMarkers_refine:
  assumes "length markers < 20"
  shows "collectMarkers B pos cands markers used =
           markers @ take (20 - length markers)
                       (map (markerOf B pos) (firstByName used (filter (accepts pos) cands)))"
  using assms
proof (induction cands arbitrary: markers used)
  case Nil
  then show ?case by simp
next
  case (Cons obj rest)
  show ?case
  proof (cases "accepts pos obj")
    case False
    then show ?thesis
      using Cons by (auto simp: accepts_iff split: option.splits)
  next
    case True
    then obtain s where s: "computeObjectSphere pos obj = Some s"
        "\<not> (\<not> isFinite (radius s) \<or> num_le (radius s) (Fin (2/100)))"
      by (auto simp: accepts_iff)
    show ?thesis
    proof (cases "safeName obj \<in> used")
      case True
      then show ?thesis
        using Cons s \<open>accepts pos obj\<close> by simp
    next
      case False
      show ?thesis
      proof (cases "length markers + 1 \<ge> 20")
        case True
        with Cons.prems have "20 - length markers = Suc 0"
          by simp
        then show ?thesis
          using True False s \<open>accepts pos obj\<close> by (simp add: markerOf_def Let_def)
      next
        case room: False
        then have lt: "length (markers @ [newMarker B obj s]) < 20"
          by simp
        from room have eq: "20 - length markers = Suc (20 - length (markers @ [newMarker B obj s]))"
          by simp
        show ?thesis
          using room False s \<open>accepts pos obj\<close> Cons.IH[OF lt]
          by (simp add: markerOf_def Let_def eq del: length_append)
      qed
    qed
  qed
qed

lemma collectMarkers_start:
  "collectMarkers B pos cands [] {} =
     map (markerOf B pos) (take 20 (firstByName {} (filter (accepts pos) cands)))"
  using collectMarkers_refine[of "[]" B pos cands "{}"] by (simp add: take_map)

lemma collectMarkers_extends:
  "\<exists>ys. collectMarkers B pos cands markers used = markers @ ys"
proof (induction cands arbitrary: markers used)
  case Nil
  then show ?case by simp
next
  case (Cons obj rest)
  show ?case
  proof (cases "computeObjectSphere pos obj")
    case None
    then show ?thesis using Cons[of markers used] by simp
  next
    case (Some s)
    obtain ys where ys: "collectMarkers B pos rest (markers @ [newMarker B obj s]) (insert (safeName obj) used)
        = (markers @ [newMarker B obj s]) @ ys"
      using Cons[of "markers @ [newMarker B obj s]" "insert (safeName obj) used"] by blast
    show ?thesis
      using Some Cons[of markers used] ys by (auto simp: Let_def)
  qed
qed

lemma firstByName_set:
  assumes "x \<in> set (firstByName used xs)"
  shows "safeName x \<notin> used \<and> x \<in> set xs"
  using assms by (induction xs arbitrary: used) (auto split: if_splits)

lemma firstByName_distinct: "distinct (map safeName (firstByName used xs))"
  by (induction xs arbitrary: used) (auto dest: firstByName_set)

lemma firstByName_covers:
  assumes "x \<in> set xs"
  shows "safeName x \<in> used \<union> safeName ` set (firstByName used xs)"
  using assms
proof (induction xs arbitrary: used)
  case Nil
  then show ?case by simp
next
  case (Cons y ys)
  show ?case
  proof (cases "x = y")
    case True
    then show ?thesis by auto
  next
    case False
    with Cons.prems have "x \<in> set ys" by simp
    from Cons.IH[OF this, of used] Cons.IH[OF this, of "insert (safeName y) used"]
    show ?thesis by auto
  qed
qed

lemma name_markerOf: "m_name (markerOf B pos obj) = safeName obj"
  by (simp add: markerOf_def newMarker_def)

lemma id_markerOf: "m_id (markerOf B pos obj) = obj_uuid obj"
  by (simp add: markerOf_def newMarker_def)

lemma description_markerOf:
  "m_description (markerOf B pos obj) = Some (''Information about '' @ m_name (markerOf B pos obj) @ ''.'')"
  by (simp add: markerOf_def newMarker_def)

lemma radius_markerOf:
  assumes "accepts pos obj"
  shows "\<exists>x. m_radius (markerOf B pos obj) = Fin x \<and> 2/100 < x"
proof -
  from assms obtain s where s: "computeObjectSphere pos obj = Some s" "isFinite (radius s)"
      "num_lt (Fin (2/100)) (radius s)"
    by (auto simp: accepts_def split: option.splits)
  then obtain x where "radius s = Fin x"
    by (cases "radius s") auto
  with s show ?thesis
    by (simp add: markerOf_def newMarker_def)
qed

lemma distinct_map_take:
  assumes "distinct (map f xs)"
  shows "distinct (map f (take n xs))"
  using assms by (simp add: take_map[symmetric] distinct_take del: take_map)

lemma same_key_at_most_one:
  assumes "distinct (map f xs)" and "\<And>x. x \<in> set xs \<Longrightarrow> P x \<Longrightarrow> f x = c"
  shows "length (filter P xs) \<le> 1"
  using assms
proof (induction xs)
  case Nil
  then show ?case by simp
next
  case (Cons x xs)
  have ih: "length (filter P xs) \<le> 1"
    using Cons by simp
  show ?case
  proof (cases "P x")
    case False
    with ih show ?thesis by simp
  next
    case True
    then have fx: "f x = c"
      using Cons.prems(2) by simp
    have "filter P xs = []"
    proof (rule ccontr)
      assume "filter P xs \<noteq> []"
      then obtain y where y: "y \<in> set xs" "P y"
        by (metis filter_False)
      then have "f y = c"
        using Cons.prems(2) by simp
      with fx y(1) Cons.prems(1) show False
        by (metis distinct.simps(2) image_eqI list.simps(9) set_map)
    qed
    with True show ?thesis by simp
  qed
qed

lemma findIndex_Some:
  assumes "findIndex P xs = Some i"
  shows "i < length xs \<and> P (xs ! i) \<and> (\<forall>j<i. \<not> P (xs ! j))"
  using assms
proof (induction xs arbitrary: i)
  case Nil
  then show ?case by simp
next
  case (Cons x xs)
  show ?case
  proof (cases "P x")
    case True
    with Cons.prems show ?thesis by simp
  next
    case False
    with Cons.prems obtain k where k: "findIndex P xs = Some k" "i = Suc k"
      by auto
    from Cons.IH[OF k(1)] have ih: "k < length xs" "P (xs ! k)" "\<forall>j<k. \<not> P (xs ! j)"
      by auto
    have "\<not> P ((x # xs) ! j)" if "j < Suc k" for j
      using that False ih(3) by (cases j) auto
    with ih k show ?thesis by simp
  qed
qed

lemma findIndex_None: "findIndex P xs = None \<longleftrightarrow> (\<forall>x\<in>set xs. \<not> P x)"
  by (induction xs) auto

lemma overrideTarget_None: "overrideTarget ms = None \<longleftrightarrow> ms = []"
  by (auto simp: overrideTarget_def split: option.splits)

lemma overrideTarget_Some:
  assumes "overrideTarget ms = Some i"
  shows "i < length ms"
  using assms by (auto simp: overrideTarget_def split: option.splits if_splits dest: findIndex_Some)

lemma promote_fields:
  "m_name (promote B m) = ''Power Aisle''"
  "m_image (promote B m) = Some (buildPublicUrl B ''markers/power-aisle.png'')"
  "m_id (promote B m) = m_id m"
  "m_center (promote B m) = m_center m"
  "m_radius (promote B m) = m_radius m"
  by (simp_all add: promote_def overrideName_def overrideImage_def Let_def)

lemma promote_description:
  assumes "m_description m = Some dsc" and "dsc \<noteq> []"
  shows "m_description (promote B m) = Some dsc"
  using assms by (simp add: promote_def Let_def)

lemma applyOverride_cases:
  "(ms = [] \<and> applyOverride B ms = []) \<or>
   (\<exists>i<length ms. overrideTarget ms = Some i \<and> applyOverride B ms = ms[i := promote B (ms ! i)])"
proof (cases "overrideTarget ms")
  case None
  then show ?thesis
    by (simp add: applyOverride_def overrideTarget_None[symmetric])
next
  case (Some i)
  then show ?thesis
    using overrideTarget_Some[OF Some] by (simp add: applyOverride_def)
qed

lemma map_update_same:
  assumes "i < length xs"
  shows "(map f xs)[i := f (xs ! i)] = map f xs"
  using assms by (simp add: list_eq_iff_nth_eq nth_list_update)

lemma applyOverride_radius: "map m_radius (applyOverride B ms) = map m_radius ms"
  using applyOverride_cases[of ms B] by (auto simp: map_update promote_fields map_update_same)

lemma applyOverride_length: "length (applyOverride B ms) = length ms"
  using applyOverride_cases[of ms B] by auto

lemma applyOverride_description:
  assumes "\<forall>m\<in>set ms. \<exists>dsc. m_description m = Some dsc \<and> dsc \<noteq> []"
  shows "map m_description (applyOverride B ms) = map m_description ms"
proof -
  have "m_description (promote B (ms ! i)) = m_description (ms ! i)" if "i < length ms" for i
  proof -
    from that assms obtain dsc where "m_description (ms ! i) = Some dsc" "dsc \<noteq> []"
      using nth_mem by blast
    then show ?thesis
      by (simp add: promote_description)
  qed
  then show ?thesis
    using applyOverride_cases[of ms B] by (auto simp: map_update map_update_same)
qed

lemma applyOverride_names:
  "map m_name (applyOverride B ms) =
     (case overrideTarget ms of None \<Rightarrow> map m_name ms | Some i \<Rightarrow> (map m_name ms)[i := ''Power Aisle''])"
  by (simp add: applyOverride_def map_update promote_fields split: option.splits)

section \<open>Marker discovery: the claims\<close>

text \<open>
  C2, as the claim states it, fails on the names: a scene whose first two children are
  named \<open>power aisle\<close> and \<open>Power Aisle\<close> yields two accepted markers with different
  names, and the override renames the first to \<open>Power Aisle\<close>, so the returned list
  holds the same name twice.
\<close>

theorem discovery_names_counterexample:
  "map obj_name (gatherCandidates twoAisles) = [''power aisle'', ''Power Aisle''] \<and>
   map_option (map m_name \<circ> onMarkers) (layoutEffect None twoAisles (Some zeroPos))
     = Some [''Power Aisle'', ''Power Aisle''] \<and>
   map_option (distinct \<circ> map m_name \<circ> onMarkers) (layoutEffect None twoAisles (Some zeroPos)) = Some False"
  by (simp add: scene_eval twoAisles_def)

text \<open>
  C2, amended. For every discovery pass over any scene graph (the list the layout effect
  hands to \<open>onMarkers\<close> is \<open>discoverMarkers\<close> at the position it gave the group), every
  marker of the returned list has a finite radius above \<open>0.02\<close> and the list has at
  most 20 markers.
  The accepted markers, before the override, are the markers of the first 20 candidates
  left when the candidates without finite geometry or with a radius of at most \<open>0.02\<close>
  are discarded and, of the rest, only the first candidate of each trimmed name in
  iteration order is kept; their names are pairwise distinct. After the override the
  names of the returned list are pairwise distinct whenever no marker other than the
  promoted one is named exactly \<open>Power Aisle\<close>.
\<close>

theorem discovery_filters_dedups_caps:
  fixes BASE_PATH pos scene
  defines "accepted \<equiv> collectMarkers BASE_PATH pos (gatherCandidates scene) [] {}"
  shows "discoverMarkers BASE_PATH pos scene = applyOverride BASE_PATH accepted \<and>
         (\<forall>m\<in>set (discoverMarkers BASE_PATH pos scene). \<exists>x. m_radius m = Fin x \<and> 2/100 < x) \<and>
         length (discoverMarkers BASE_PATH pos scene) \<le> 20 \<and>
         accepted = map (markerOf BASE_PATH pos)
                      (take 20 (firstByName {} (filter (accepts pos) (gatherCandidates scene)))) \<and>
         distinct (map m_name accepted) \<and>
         ((\<forall>j<length accepted. overrideTarget accepted \<noteq> Some j \<longrightarrow> m_name (accepted ! j) \<noteq> ''Power Aisle'')
            \<longrightarrow> distinct (map m_name (discoverMarkers BASE_PATH pos scene)))"
proof -
  let ?objs = "take 20 (firstByName {} (filter (accepts pos) (gatherCandidates scene)))"
  have acc: "accepted = map (markerOf BASE_PATH pos) ?objs"
    unfolding accepted_def by (rule collectMarkers_start)
  have res: "discoverMarkers BASE_PATH pos scene = applyOverride BASE_PATH accepted"
    by (simp add: discoverMarkers_def accepted_def)
  have objs: "accepts pos ob" if "ob \<in> set ?objs" for ob
  proof -
    from that have "ob \<in> set (firstByName {} (filter (accepts pos) (gatherCandidates scene)))"
      by (rule in_set_takeD)
    then have "ob \<in> set (filter (accepts pos) (gatherCandidates scene))"
      by (rule firstByName_set[THEN conjunct2])
    then show ?thesis
      by simp
  qed
  have rad0: "\<forall>m\<in>set accepted. \<exists>x. m_radius m = Fin x \<and> 2/100 < x"
  proof
    fix m
    assume "m \<in> set accepted"
    then obtain ob where ob: "ob \<in> set ?objs" "m = markerOf BASE_PATH pos ob"
      unfolding acc by (metis (no_types, lifting) imageE list.set_map)
    show "\<exists>x. m_radius m = Fin x \<and> 2/100 < x"
      unfolding ob(2) using objs[OF ob(1)] by (rule radius_markerOf)
  qed
  have rad: "\<forall>m\<in>set (discoverMarkers BASE_PATH pos scene). \<exists>x. m_radius m = Fin x \<and> 2/100 < x"
  proof
    fix m
    assume "m \<in> set (discoverMarkers BASE_PATH pos scene)"
    then have "m_radius m \<in> set (map m_radius (applyOverride BASE_PATH accepted))"
      unfolding res by simp
    then have "m_radius m \<in> set (map m_radius accepted)"
      by (simp only: applyOverride_radius)
    then obtain m' where "m' \<in> set accepted" "m_radius m = m_radius m'"
      by (metis (no_types, lifting) imageE list.set_map)
    then show "\<exists>x. m_radius m = Fin x \<and> 2/100 < x"
      using rad0 by simp
  qed
  have len: "length (discoverMarkers BASE_PATH pos scene) \<le> 20"
    unfolding res applyOverride_length acc by simp
  have names: "map m_name accepted = map safeName ?objs"
    unfolding acc by (simp add: name_markerOf)
  have dist: "distinct (map m_name accepted)"
    unfolding names by (rule distinct_map_take) (rule firstByName_distinct)
  have after: "distinct (map m_name (discoverMarkers BASE_PATH pos scene))"
    if free: "\<forall>j<length accepted. overrideTarget accepted \<noteq> Some j \<longrightarrow> m_name (accepted ! j) \<noteq> ''Power Aisle''"
  proof (cases "overrideTarget accepted")
    case None
    then show ?thesis
      using dist by (simp add: res applyOverride_names)
  next
    case (Some i)
    have il: "i < length accepted"
      using overrideTarget_Some[OF Some] .
    have "''Power Aisle'' \<notin> set (map m_name accepted) - {map m_name accepted ! i}"
    proof
      assume "''Power Aisle'' \<in> set (map m_name accepted) - {map m_name accepted ! i}"
      then have mem: "''Power Aisle'' \<in> set (map m_name accepted)"
          and other: "''Power Aisle'' \<noteq> map m_name accepted ! i"
        by simp_all
      from mem obtain j where j: "j < length (map m_name accepted)" "map m_name accepted ! j = ''Power Aisle''"
        unfolding in_set_conv_nth by blast
      then have jl: "j < length accepted" and jn: "m_name (accepted ! j) = ''Power Aisle''"
        by simp_all
      have "j \<noteq> i"
        using other j(2) by metis
      then have "overrideTarget accepted \<noteq> Some j"
        using Some by simp
      with free jl have "m_name (accepted ! j) \<noteq> ''Power Aisle''"
        by blast
      with jn show False
        by contradiction
    qed
    with dist have "distinct ((map m_name accepted)[i := ''Power Aisle''])"
      by (rule distinct_list_update)
    then show ?thesis
      using Some by (simp add: res applyOverride_names)
  qed
  show ?thesis
  proof (intro conjI impI)
    show "discoverMarkers BASE_PATH pos scene = applyOverride BASE_PATH accepted"
      by (rule res)
    show "\<forall>m\<in>set (discoverMarkers BASE_PATH pos scene). \<exists>x. m_radius m = Fin x \<and> 2/100 < x"
      by (rule rad)
    show "length (discoverMarkers BASE_PATH pos scene) \<le> 20"
      by (rule len)
    show "accepted = map (markerOf BASE_PATH pos)
                      (take 20 (firstByName {} (filter (accepts pos) (gatherCandidates scene))))"
      by (rule acc)
    show "distinct (map m_name accepted)"
      by (rule dist)
    show "distinct (map m_name (discoverMarkers BASE_PATH pos scene))"
      if "\<forall>j<length accepted. overrideTarget accepted \<noteq> Some j \<longrightarrow> m_name (accepted ! j) \<noteq> ''Power Aisle''"
      using that by (rule after)
  qed
qed

theorem discovery_filters_dedups_caps_witness:
  "collectMarkers None (Vector3 (Fin 0) (Fin (- 2)) (Fin 0)) (gatherCandidates lobbyScene) [] {} = [lobbyMarker] \<and>
   discoverMarkers None (Vector3 (Fin 0) (Fin (- 2)) (Fin 0)) lobbyScene =
     [lobbyMarker\<lparr>m_name := ''Power Aisle'', m_image := Some ''/markers/power-aisle.png''\<rparr>] \<and>
   distinct (map m_name (discoverMarkers None (Vector3 (Fin 0) (Fin (- 2)) (Fin 0)) lobbyScene)) \<and>
   length (discoverMarkers None (Vector3 (Fin 0) (Fin (- 2)) (Fin 0)) lobbyScene) \<le> 20"
proof -
  let ?pos = "Vector3 (Fin 0) (Fin (- 2)) (Fin 0)"
  have acc: "collectMarkers None ?pos (gatherCandidates lobbyScene) [] {} = [lobbyMarker]"
    by (simp add: scene_eval lobbyScene_def lobbyMarker_def)
  have res: "discoverMarkers None ?pos lobbyScene =
     [lobbyMarker\<lparr>m_name := ''Power Aisle'', m_image := Some ''/markers/power-aisle.png''\<rparr>]"
    unfolding discoverMarkers_def acc by (simp add: scene_eval lobbyMarker_def)
  have tgt: "overrideTarget [lobbyMarker] = Some 0"
    by (simp add: scene_eval lobbyMarker_def)
  have free: "\<forall>j<length (collectMarkers None ?pos (gatherCandidates lobbyScene) [] {}).
               overrideTarget (collectMarkers None ?pos (gatherCandidates lobbyScene) [] {}) \<noteq> Some j \<longrightarrow>
               m_name (collectMarkers None ?pos (gatherCandidates lobbyScene) [] {} ! j) \<noteq> ''Power Aisle''"
    unfolding acc tgt by simp
  note main = discovery_filters_dedups_caps[of None ?pos lobbyScene]
  have d: "distinct (map m_name (discoverMarkers None ?pos lobbyScene))"
    using main[THEN conjunct2, THEN conjunct2, THEN conjunct2, THEN conjunct2, THEN conjunct2] free
    by (rule mp)
  have l: "length (discoverMarkers None ?pos lobbyScene) \<le> 20"
    using main[THEN conjunct2, THEN conjunct2, THEN conjunct1] .
  show ?thesis
    using acc res d l by (intro conjI)
qed

text \<open>
  C3. The override keeps the length of the list and leaves the empty list empty. On a
  list that is not empty it changes the marker at exactly one index \<open>i\<close>: the first
  index whose name equals \<open>Power Aisle\<close> without regard to case when there is one, and
  the index \<open>0\<close> otherwise. That marker gets the name \<open>Power Aisle\<close> and the dedicated
  image and keeps its id, centre and radius; every other index holds the marker it held
  before, so no marker changes its position in the list.
\<close>

theorem override_promotes_one:
  "length (applyOverride BASE_PATH ms) = length ms \<and>
   (ms = [] \<longrightarrow> applyOverride BASE_PATH ms = []) \<and>
   (ms \<noteq> [] \<longrightarrow>
      (\<exists>i<length ms.
         (if \<exists>m\<in>set ms. toLowerCase (m_name m) = toLowerCase ''Power Aisle''
          then toLowerCase (m_name (ms ! i)) = toLowerCase ''Power Aisle'' \<and>
               (\<forall>j<i. toLowerCase (m_name (ms ! j)) \<noteq> toLowerCase ''Power Aisle'')
          else i = 0) \<and>
         m_name (applyOverride BASE_PATH ms ! i) = ''Power Aisle'' \<and>
         m_image (applyOverride BASE_PATH ms ! i) = Some (buildPublicUrl BASE_PATH ''markers/power-aisle.png'') \<and>
         m_id (applyOverride BASE_PATH ms ! i) = m_id (ms ! i) \<and>
         m_center (applyOverride BASE_PATH ms ! i) = m_center (ms ! i) \<and>
         m_radius (applyOverride BASE_PATH ms ! i) = m_radius (ms ! i) \<and>
         (\<forall>j<length ms. j \<noteq> i \<longrightarrow> applyOverride BASE_PATH ms ! j = ms ! j)))"
proof (intro conjI impI)
  show "length (applyOverride BASE_PATH ms) = length ms"
    by (rule applyOverride_length)
  show "applyOverride BASE_PATH ms = []" if "ms = []"
    using that by (simp add: applyOverride_def overrideTarget_def)
next
  assume ne: "ms \<noteq> []"
  let ?P = "\<lambda>m. toLowerCase (m_name m) = toLowerCase overrideName"
  obtain i where i: "overrideTarget ms = Some i"
    using ne overrideTarget_None[of ms] by (cases "overrideTarget ms") auto
  have il: "i < length ms"
    using overrideTarget_Some[OF i] .
  have res: "applyOverride BASE_PATH ms = ms[i := promote BASE_PATH (ms ! i)]"
    using i by (simp add: applyOverride_def)
  have sel: "if \<exists>m\<in>set ms. ?P m then ?P (ms ! i) \<and> (\<forall>j<i. \<not> ?P (ms ! j)) else i = 0"
  proof (cases "findIndex ?P ms")
    case None
    then have "\<not> (\<exists>m\<in>set ms. ?P m)"
      by (simp add: findIndex_None)
    moreover have "i = 0"
      using i None ne by (simp add: overrideTarget_def)
    ultimately show ?thesis
      by simp
  next
    case (Some k)
    then have "k = i"
      using i by (simp add: overrideTarget_def)
    with findIndex_Some[OF Some] have found: "?P (ms ! i)" "\<forall>j<i. \<not> ?P (ms ! j)"
      by auto
    then have "\<exists>m\<in>set ms. ?P m"
      using il nth_mem by blast
    with found show ?thesis
      by simp
  qed
  show "\<exists>i<length ms.
         (if \<exists>m\<in>set ms. toLowerCase (m_name m) = toLowerCase ''Power Aisle''
          then toLowerCase (m_name (ms ! i)) = toLowerCase ''Power Aisle'' \<and>
               (\<forall>j<i. toLowerCase (m_name (ms ! j)) \<noteq> toLowerCase ''Power Aisle'')
          else i = 0) \<and>
         m_name (applyOverride BASE_PATH ms ! i) = ''Power Aisle'' \<and>
         m_image (applyOverride BASE_PATH ms ! i) = Some (buildPublicUrl BASE_PATH ''markers/power-aisle.png'') \<and>
         m_id (applyOverride BASE_PATH ms ! i) = m_id (ms ! i) \<and>
         m_center (applyOverride BASE_PATH ms ! i) = m_center (ms ! i) \<and>
         m_radius (applyOverride BASE_PATH ms ! i) = m_radius (ms ! i) \<and>
         (\<forall>j<length ms. j \<noteq> i \<longrightarrow> applyOverride BASE_PATH ms ! j = ms ! j)"
  proof (intro exI[of _ i] conjI)
    show "i < length ms"
      by (rule il)
    show "if \<exists>m\<in>set ms. toLowerCase (m_name m) = toLowerCase ''Power Aisle''
          then toLowerCase (m_name (ms ! i)) = toLowerCase ''Power Aisle'' \<and>
               (\<forall>j<i. toLowerCase (m_name (ms ! j)) \<noteq> toLowerCase ''Power Aisle'')
          else i = 0"
      using sel unfolding overrideName_def .
    show "\<forall>j<length ms. j \<noteq> i \<longrightarrow> applyOverride BASE_PATH ms ! j = ms ! j"
      by (simp add: res)
  qed (simp_all add: res il promote_fields)
qed

theorem override_promotes_one_witness:
  "toLowerCase (m_name aisleMarker) = toLowerCase ''Power Aisle'' \<and>
   toLowerCase (m_name lobbyMarker) \<noteq> toLowerCase ''Power Aisle'' \<and>
   applyOverride None [lobbyMarker, aisleMarker] =
     [lobbyMarker, aisleMarker\<lparr>m_name := ''Power Aisle'', m_image := Some ''/markers/power-aisle.png''\<rparr>] \<and>
   applyOverride None [lobbyMarker] =
     [lobbyMarker\<lparr>m_name := ''Power Aisle'', m_image := Some ''/markers/power-aisle.png''\<rparr>] \<and>
   length (applyOverride None [lobbyMarker, aisleMarker]) = length [lobbyMarker, aisleMarker]"
proof -
  have m1: "toLowerCase (m_name aisleMarker) = toLowerCase ''Power Aisle''"
    by (simp add: aisleMarker_def toLowerCase_def toLowerChar_def upperChars_def lowerChars_def)
  have m2: "toLowerCase (m_name lobbyMarker) \<noteq> toLowerCase ''Power Aisle''"
    by (simp add: lobbyMarker_def toLowerCase_def toLowerChar_def upperChars_def lowerChars_def)
  have e1: "applyOverride None [lobbyMarker, aisleMarker] =
     [lobbyMarker, aisleMarker\<lparr>m_name := ''Power Aisle'', m_image := Some ''/markers/power-aisle.png''\<rparr>]"
    by (simp add: scene_eval lobbyMarker_def aisleMarker_def)
  have e2: "applyOverride None [lobbyMarker] =
     [lobbyMarker\<lparr>m_name := ''Power Aisle'', m_image := Some ''/markers/power-aisle.png''\<rparr>]"
    by (simp add: scene_eval lobbyMarker_def)
  have l: "length (applyOverride None [lobbyMarker, aisleMarker]) = length [lobbyMarker, aisleMarker]"
    using override_promotes_one[of None "[lobbyMarker, aisleMarker]", THEN conjunct1] .
  show ?thesis
    using m1 m2 e1 e2 l by (intro conjI)
qed

text \<open>
  C9. A candidate whose name is not empty but that \<open>trim\<close> empties gets the name
  \<open>Group\<close>. It passes the test on the name of the candidate gathering, among the
  children of the root and in the traversal that replaces them; when the loop
  reaches it with accepted geometry and \<open>Group\<close> not yet used, its marker, with its id
  and the name \<open>Group\<close>, is in the result; and whenever such a candidate with accepted
  geometry is among the candidates and the cap does not cut the list, the result has a
  marker named \<open>Group\<close>. The accepted markers are the markers of the candidates
  \<open>take 20 (firstByName {} (filter (accepts pos) cands))\<close>, and at most one of these
  candidates has such a name.
\<close>

theorem blank_name_becomes_Group:
  assumes "obj_name obj \<noteq> []" and "trim (obj_name obj) = []"
  shows "safeName obj = ''Group'' \<and>
         (obj \<in> set (obj_children scene) \<and> obj_visible obj \<longrightarrow> obj \<in> set (gatherCandidates scene)) \<and>
         (filter (\<lambda>c. obj_name c \<noteq> [] \<and> obj_visible c) (obj_children scene) = [] \<and>
          obj \<in> set (traverse scene) \<and> obj_visible obj \<and> obj_isMesh obj
            \<longrightarrow> obj \<in> set (gatherCandidates scene)) \<and>
         (accepts pos obj \<and> ''Group'' \<notin> used \<longrightarrow>
            (\<exists>m\<in>set (collectMarkers BASE_PATH pos (obj # rest) markers used).
                m_id m = obj_uuid obj \<and> m_name m = ''Group'')) \<and>
         (obj \<in> set cands \<and> accepts pos obj \<and> length (firstByName {} (filter (accepts pos) cands)) \<le> 20 \<longrightarrow>
            ''Group'' \<in> set (map m_name (collectMarkers BASE_PATH pos cands [] {}))) \<and>
         collectMarkers BASE_PATH pos cands [] {} =
           map (markerOf BASE_PATH pos) (take 20 (firstByName {} (filter (accepts pos) cands))) \<and>
         length (filter blankName (take 20 (firstByName {} (filter (accepts pos) cands)))) \<le> 1"
proof -
  have sn: "safeName obj = ''Group''"
    using assms(2) by (simp add: safeName_def)
  have cand: "obj \<in> set (gatherCandidates scene)" if "obj \<in> set (obj_children scene)" "obj_visible obj"
  proof -
    have "obj \<in> set (filter (\<lambda>c. obj_name c \<noteq> [] \<and> obj_visible c) (obj_children scene))"
      using that assms(1) by simp
    moreover from this have "length (filter (\<lambda>c. obj_name c \<noteq> [] \<and> obj_visible c) (obj_children scene)) \<noteq> 0"
      by (metis length_0_conv empty_iff empty_set)
    ultimately show ?thesis
      by (simp add: gatherCandidates_def Let_def)
  qed
  have fallback: "obj \<in> set (gatherCandidates scene)"
    if "filter (\<lambda>c. obj_name c \<noteq> [] \<and> obj_visible c) (obj_children scene) = []"
       "obj \<in> set (traverse scene)" "obj_visible obj" "obj_isMesh obj"
    using that assms(1) by (simp add: gatherCandidates_def Let_def)
  have pushed: "\<exists>m\<in>set (collectMarkers BASE_PATH pos (obj # rest) markers used).
                  m_id m = obj_uuid obj \<and> m_name m = ''Group''"
    if a: "accepts pos obj" and u: "''Group'' \<notin> used"
  proof -
    from a obtain s where s: "computeObjectSphere pos obj = Some s"
        "\<not> (\<not> isFinite (radius s) \<or> num_le (radius s) (Fin (2/100)))"
      by (auto simp: accepts_iff)
    let ?m = "newMarker BASE_PATH obj s"
    obtain ys where ys: "collectMarkers BASE_PATH pos rest (markers @ [?m]) (insert (safeName obj) used)
        = (markers @ [?m]) @ ys"
      using collectMarkers_extends by blast
    have "?m \<in> set (collectMarkers BASE_PATH pos (obj # rest) markers used)"
      using s u sn ys by (auto simp: Let_def)
    moreover have "m_id ?m = obj_uuid obj \<and> m_name ?m = ''Group''"
      using sn by (simp add: newMarker_def)
    ultimately show ?thesis
      by blast
  qed
  have start: "collectMarkers BASE_PATH pos cands [] {} =
           map (markerOf BASE_PATH pos) (take 20 (firstByName {} (filter (accepts pos) cands)))"
    by (rule collectMarkers_start)
  have kept: "''Group'' \<in> set (map m_name (collectMarkers BASE_PATH pos cands [] {}))"
    if "obj \<in> set cands" "accepts pos obj" "length (firstByName {} (filter (accepts pos) cands)) \<le> 20"
  proof -
    have "obj \<in> set (filter (accepts pos) cands)"
      using that(1,2) by simp
    from firstByName_covers[OF this, of "{}"]
    have "''Group'' \<in> safeName ` set (firstByName {} (filter (accepts pos) cands))"
      using sn by simp
    then show ?thesis
      using that(3) by (simp add: start name_markerOf image_image[symmetric] del: image_image)
  qed
  have once: "length (filter blankName (take 20 (firstByName {} (filter (accepts pos) cands)))) \<le> 1"
  proof (rule same_key_at_most_one[where f = safeName and c = "''Group''"])
    show "distinct (map safeName (take 20 (firstByName {} (filter (accepts pos) cands))))"
      by (rule distinct_map_take) (rule firstByName_distinct)
    show "safeName x = ''Group''" if "blankName x" for x
      using that by (simp add: blankName_def safeName_def)
  qed
  from sn cand fallback pushed kept start once show ?thesis
    by blast
qed

theorem blank_name_becomes_Group_witness:
  "obj_name blankNode \<noteq> [] \<and> trim (obj_name blankNode) = [] \<and> safeName blankNode = ''Group'' \<and>
   map obj_uuid (gatherCandidates blankScene) = [''u1'', ''u2''] \<and>
   map safeName (gatherCandidates blankScene) = [''Group'', ''Group''] \<and>
   map m_name (collectMarkers None zeroPos (gatherCandidates blankScene) [] {}) = [''Group''] \<and>
   map m_id (collectMarkers None zeroPos (gatherCandidates blankScene) [] {}) = [''u1'']"
proof -
  have h1: "obj_name blankNode \<noteq> []"
    by (simp add: blankNode_def)
  have h2: "trim (obj_name blankNode) = []"
    by (simp add: blankNode_def trim_def isWhiteSpace_def)
  have sn: "safeName blankNode = ''Group''"
    using blank_name_becomes_Group[OF h1 h2] by blast
  have ev: "map obj_uuid (gatherCandidates blankScene) = [''u1'', ''u2'']"
      "map safeName (gatherCandidates blankScene) = [''Group'', ''Group'']"
      "map m_name (collectMarkers None zeroPos (gatherCandidates blankScene) [] {}) = [''Group'']"
      "map m_id (collectMarkers None zeroPos (gatherCandidates blankScene) [] {}) = [''u1'']"
    by (simp_all add: scene_eval blankScene_def blankNode_def)
  from h1 h2 sn ev show ?thesis
    by blast
qed

text \<open>
  C10. Every accepted marker carries the description \<open>Information about <name>.\<close> made
  from its name before the override runs. The override changes no description: the
  descriptions of the returned list are those of the accepted markers, index by index,
  so the promoted marker keeps the description made from its original name, and no
  returned marker carries the dedicated description.
\<close>

theorem description_always_generated:
  fixes BASE_PATH pos scene
  defines "accepted \<equiv> collectMarkers BASE_PATH pos (gatherCandidates scene) [] {}"
  shows "(\<forall>m\<in>set accepted. m_description m = Some (''Information about '' @ m_name m @ ''.'')) \<and>
         map m_description (discoverMarkers BASE_PATH pos scene) = map m_description accepted \<and>
         (\<forall>m\<in>set (discoverMarkers BASE_PATH pos scene).
             m_description m \<noteq> Some ''High-capacity aisle for main power distribution.'')"
proof -
  have acc: "accepted = map (markerOf BASE_PATH pos)
                          (take 20 (firstByName {} (filter (accepts pos) (gatherCandidates scene))))"
    unfolding accepted_def by (rule collectMarkers_start)
  have gen: "\<forall>m\<in>set accepted. m_description m = Some (''Information about '' @ m_name m @ ''.'')"
    unfolding acc using description_markerOf by auto
  then have set: "\<forall>m\<in>set accepted. \<exists>dsc. m_description m = Some dsc \<and> dsc \<noteq> []"
    by auto
  have same: "map m_description (discoverMarkers BASE_PATH pos scene) = map m_description accepted"
    unfolding discoverMarkers_def accepted_def[symmetric] using set by (rule applyOverride_description)
  have never: "\<forall>m\<in>set (discoverMarkers BASE_PATH pos scene).
             m_description m \<noteq> Some ''High-capacity aisle for main power distribution.''"
  proof
    fix m
    assume "m \<in> set (discoverMarkers BASE_PATH pos scene)"
    then have "m_description m \<in> set (map m_description (discoverMarkers BASE_PATH pos scene))"
      by simp
    then have "m_description m \<in> set (map m_description accepted)"
      by (simp only: same)
    then obtain m' where "m' \<in> set accepted" "m_description m = m_description m'"
      by auto
    with gen have "m_description m = Some (''Information about '' @ m_name m' @ ''.'')"
      by simp
    then show "m_description m \<noteq> Some ''High-capacity aisle for main power distribution.''"
      by simp
  qed
  from gen same never show ?thesis
    by blast
qed

theorem description_always_generated_witness:
  "map m_name (collectMarkers None (Vector3 (Fin 0) (Fin (- 2)) (Fin 0)) (gatherCandidates lobbyScene) [] {}) = [''Lobby''] \<and>
   map m_name (discoverMarkers None (Vector3 (Fin 0) (Fin (- 2)) (Fin 0)) lobbyScene) = [''Power Aisle''] \<and>
   map m_description (discoverMarkers None (Vector3 (Fin 0) (Fin (- 2)) (Fin 0)) lobbyScene)
     = [Some ''Information about Lobby.'']"
proof -
  let ?pos = "Vector3 (Fin 0) (Fin (- 2)) (Fin 0)"
  have ev: "map m_name (collectMarkers None ?pos (gatherCandidates lobbyScene) [] {}) = [''Lobby'']"
      "map m_name (discoverMarkers None ?pos lobbyScene) = [''Power Aisle'']"
      "map m_description (collectMarkers None ?pos (gatherCandidates lobbyScene) [] {}) = [Some ''Information about Lobby.'']"
    by (simp_all add: scene_eval lobbyScene_def)
  have "map m_description (discoverMarkers None ?pos lobbyScene)
        = map m_description (collectMarkers None ?pos (gatherCandidates lobbyScene) [] {})"
    using description_always_generated[of None ?pos lobbyScene] by blast
  with ev show ?thesis
    by simp
qed

section \<open>Lemmas on the rounding\<close>

lemma binade_eqI:
  assumes "2 powr of_int e \<le> \<bar>x\<bar>" and "\<bar>x\<bar> < 2 powr (of_int e + 1)"
  shows "binade x = e"
proof -
  have pos: "0 < \<bar>x\<bar>"
    using assms(1) by (smt (verit) powr_gt_zero)
  have "of_int e \<le> log 2 \<bar>x\<bar>"
    using assms(1) pos by (simp add: le_log_iff)
  moreover have "log 2 \<bar>x\<bar> < of_int e + 1"
    using assms(2) pos by (simp add: log_less_iff)
  ultimately show ?thesis
    unfolding binade_def by (simp add: floor_eq_iff)
qed

lemma binade_bounds:
  assumes "x \<noteq> 0"
  shows "2 powr of_int (binade x) \<le> \<bar>x\<bar>"
proof -
  have pos: "0 < \<bar>x\<bar>"
    using assms by simp
  have "of_int (binade x) \<le> log 2 \<bar>x\<bar>"
    unfolding binade_def by simp
  then show ?thesis
    using pos by (simp add: le_log_iff)
qed

lemma roundEven_error: "\<bar>of_int (roundEven y) - y\<bar> \<le> 1/2"
proof -
  define f where "f = \<lfloor>y\<rfloor>"
  define r where "r = y - of_int f"
  have r: "0 \<le> r" "r < 1"
    unfolding r_def f_def by linarith+
  have y: "y = of_int f + r"
    by (simp add: r_def)
  have re: "roundEven y = (if r < 1/2 then f else if 1/2 < r then f + 1 else if even f then f else f + 1)"
    by (simp add: roundEven_def Let_def f_def r_def)
  have "of_int (roundEven y) - y = - r \<and> r \<le> 1/2 \<or> of_int (roundEven y) - y = 1 - r \<and> 1/2 \<le> r"
    unfolding re using y by auto
  then show ?thesis
    using r by auto
qed

lemma fl_error: "\<bar>fl x - x\<bar> \<le> \<bar>x\<bar> / 2 ^ 53"
proof (cases "x = 0")
  case True
  then show ?thesis by (simp add: fl_def)
next
  case False
  define u :: real where "u = 2 powr (of_int (binade x) - 52)"
  have upos: "0 < u"
    by (simp add: u_def)
  have flx: "fl x = of_int (roundEven (x / u)) * u"
    using False by (simp add: fl_def u_def)
  have "fl x - x = (of_int (roundEven (x / u)) - x / u) * u"
    using upos by (simp add: flx algebra_simps)
  then have "\<bar>fl x - x\<bar> = \<bar>of_int (roundEven (x / u)) - x / u\<bar> * u"
    using upos by (simp add: abs_mult)
  also have "\<dots> \<le> 1/2 * u"
    using roundEven_error[of "x / u"] upos by (intro mult_right_mono) simp_all
  finally have e1: "\<bar>fl x - x\<bar> \<le> u / 2"
    by simp
  have "u * 2 powr 52 = 2 powr (of_int (binade x) - 52 + 52)"
    unfolding u_def by (simp only: powr_add)
  then have "u * 2 ^ 52 = 2 powr of_int (binade x)"
    by simp
  then have "u * 2 ^ 52 \<le> \<bar>x\<bar>"
    using binade_bounds[OF False] by simp
  then have "u / 2 \<le> \<bar>x\<bar> / 2 ^ 53"
    by simp
  with e1 show ?thesis
    by linarith
qed

lemma fl_eval:
  assumes "2 powr of_int e \<le> \<bar>x\<bar>" and "\<bar>x\<bar> < 2 powr (of_int e + 1)"
  shows "fl x = of_int (roundEven (x / 2 powr (of_int e - 52))) * 2 powr (of_int e - 52)"
proof -
  have "x \<noteq> 0"
    using assms(1) by (smt (verit) powr_gt_zero)
  then show ?thesis
    by (simp add: fl_def binade_eqI[OF assms])
qed

lemma fl_0: "fl 0 = 0"
  by (simp add: fl_def)

lemma fl_1: "fl 1 = 1"
  using fl_eval[of 0 1] by (simp add: roundEven_def Let_def powr_neg_numeral)

lemma fl_2: "fl 2 = 2"
  using fl_eval[of 1 2] by (simp add: roundEven_def Let_def powr_neg_numeral)

lemma fl_3: "fl 3 = 3"
  using fl_eval[of 1 3] by (simp add: roundEven_def Let_def powr_neg_numeral)

lemma fl_half: "fl (1/2) = 1/2"
  using fl_eval[of "-1" "1/2"] by (simp add: roundEven_def Let_def powr_neg_numeral)

lemma fl_quarter: "fl (1/4) = 1/4"
  using fl_eval[of "-2" "1/4"] by (simp add: roundEven_def Let_def powr_neg_numeral)

lemma fl_eighth: "fl (1/8) = 1/8"
  using fl_eval[of "-3" "1/8"] by (simp add: roundEven_def Let_def powr_neg_numeral)

lemma fl_5_2: "fl (5/2) = 5/2"
  using fl_eval[of 1 "5/2"] by (simp add: roundEven_def Let_def powr_neg_numeral)

lemma fl_5: "fl 5 = 5"
  using fl_eval[of 2 5] by (simp add: roundEven_def Let_def powr_neg_numeral)


lemmas fl_values = fl_0 fl_1 fl_2 fl_3 fl_5 fl_half fl_quarter fl_eighth fl_5_2




section \<open>Lemmas on the flight\<close>

lemma advance_idle:
  assumes "animRef s = None"
  shows "advance s delta = s"
  using assms by (simp add: advance_def)

lemma advances_idle:
  assumes "animRef s = None"
  shows "advances s deltas = s"
  using assms by (induction deltas) (simp_all add: advance_idle)

lemma eased_end:
  assumes "0 < d a"
  shows "eased a (d a) = 1"
  using assms by (simp add: eased_def Let_def fl_values)







lemma fl_lower:
  assumes "0 \<le> x"
  shows "(1 - 1 / 2 ^ 53) * x \<le> fl x"
proof -
  define u :: real where "u = 1 / 2 ^ 53"
  have "\<bar>fl x - x\<bar> \<le> u * x"
    using fl_error[of x] assms by (simp add: u_def)
  moreover have "(1 - u) * x = x - u * x"
    by (simp add: algebra_simps)
  ultimately have "(1 - u) * x \<le> fl x"
    by linarith
  then show ?thesis
    by (simp only: u_def)
qed

lemma reaches_from_sum:
  assumes "\<forall>delta\<in>set deltas. 0 \<le> delta" and "0 \<le> tm" and "tm < dur"
      and "dur \<le> (tm + sum_list deltas) * (1 - 1 / 2 ^ 53) ^ length deltas"
  shows "reaches dur tm deltas"
  using assms
proof (induction deltas arbitrary: tm)
  case Nil
  then show ?case by simp
next
  case (Cons delta rest)
  define q :: real where "q = 1 - 1 / 2 ^ 53"
  define x where "x = tm + delta"
  define S where "S = sum_list rest"
  have q: "0 \<le> q" "q \<le> 1"
    by (simp_all add: q_def)
  have x0: "0 \<le> x"
    using Cons.prems(1,2) by (simp add: x_def)
  have S0: "0 \<le> S"
    unfolding S_def using Cons.prems(1) by (intro sum_list_nonneg) simp
  have low: "q * x \<le> fl x"
    unfolding q_def using x0 by (rule fl_lower)
  show ?case
  proof (cases "dur \<le> fl x")
    case True
    then show ?thesis
      by (simp add: x_def)
  next
    case False
    have p1: "\<forall>delta\<in>set rest. 0 \<le> delta"
      using Cons.prems(1) by simp
    have p2: "0 \<le> fl x"
      using low q(1) x0 by (smt (verit) mult_nonneg_nonneg)
    have p3: "fl x < dur"
      using False by simp
    have "q * S \<le> S"
      using q S0 by (simp add: mult_left_le_one_le)
    then have "q * (x + S) \<le> fl x + S"
      using low by (simp add: algebra_simps)
    then have "q ^ length rest * (q * (x + S)) \<le> q ^ length rest * (fl x + S)"
      using q(1) by (intro mult_left_mono) simp_all
    moreover have "(tm + sum_list (delta # rest)) * q ^ length (delta # rest)
                   = q ^ length rest * (q * (x + S))"
      by (simp add: x_def S_def algebra_simps)
    moreover have "dur \<le> (tm + sum_list (delta # rest)) * q ^ length (delta # rest)"
      using Cons.prems(4) by (simp only: q_def)
    ultimately have "dur \<le> q ^ length rest * (fl x + S)"
      by linarith
    then have "dur \<le> (fl x + S) * q ^ length rest"
      by (simp only: mult.commute)
    then have p4: "dur \<le> (fl x + sum_list rest) * (1 - 1 / 2 ^ 53) ^ length rest"
      by (simp only: q_def S_def)
    have "reaches dur (fl x) rest"
      using p1 p2 p3 p4 by (rule Cons.IH)
    then show ?thesis
      by (simp add: x_def)
  qed
qed

lemma invokes_only_own:
  "\<exists>evs. events (advances s deltas) = events s @ evs \<and>
         (\<forall>c. Invoke c \<in> set evs \<longrightarrow> (\<exists>a. animRef s = Some a \<and> onComplete a = Some c))"
proof (induction deltas arbitrary: s)
  case Nil
  then show ?case by simp
next
  case (Cons delta rest)
  show ?case
  proof (cases "animRef s")
    case None
    then show ?thesis
      using advances_idle[of s "delta # rest"] by simp
  next
    case (Some a)
    let ?s' = "advance s delta"
    have "\<exists>evs1. events ?s' = events s @ evs1 \<and> (\<forall>c. Invoke c \<in> set evs1 \<longrightarrow> onComplete a = Some c)
           \<and> (animRef ?s' = None \<or> (\<exists>a'. animRef ?s' = Some a' \<and> onComplete a' = onComplete a))"
      using Some by (cases "controlsRef s"; cases "onComplete a") (simp_all add: advance_def Let_def)
    then obtain evs1 where e1: "events ?s' = events s @ evs1"
        "\<forall>c. Invoke c \<in> set evs1 \<longrightarrow> onComplete a = Some c"
        "animRef ?s' = None \<or> (\<exists>a'. animRef ?s' = Some a' \<and> onComplete a' = onComplete a)"
      by blast
    from Cons.IH[of ?s'] obtain evs2 where e2: "events (advances ?s' rest) = events ?s' @ evs2"
        "\<forall>c. Invoke c \<in> set evs2 \<longrightarrow> (\<exists>a. animRef ?s' = Some a \<and> onComplete a = Some c)"
      by blast
    have "events (advances s (delta # rest)) = events s @ (evs1 @ evs2)"
      using e1(1) e2(1) by simp
    moreover have "\<forall>c. Invoke c \<in> set (evs1 @ evs2) \<longrightarrow> (\<exists>a. animRef s = Some a \<and> onComplete a = Some c)"
      using e1(2,3) e2(2) Some by auto
    ultimately show ?thesis
      by blast
  qed
qed

lemma vlength_zero: "vlength v = 0 \<longleftrightarrow> v = Vector3 0 0 0"
proof (cases v)
  case (Vector3 a b c)
  have "a * a + b * b + c * c = 0 \<longleftrightarrow> a = 0 \<and> b = 0 \<and> c = 0"
  proof
    assume z: "a * a + b * b + c * c = 0"
    have "0 \<le> a * a" "0 \<le> b * b" "0 \<le> c * c"
      by simp_all
    with z have "a * a = 0" "b * b = 0" "c * c = 0"
      by linarith+
    then show "a = 0 \<and> b = 0 \<and> c = 0"
      by simp
  qed simp
  then show ?thesis
    using Vector3 by (simp add: vlength_def)
qed

lemma vlength_normalize:
  assumes "vlength v \<noteq> 0"
  shows "vlength (normalize v) = 1"
proof -
  let ?S = "vx v * vx v + vy v * vy v + vz v * vz v"
  have l: "vlength v = sqrt ?S"
    by (simp add: vlength_def)
  have ne: "?S \<noteq> 0"
    using assms l by auto
  have "vx (normalize v) * vx (normalize v) + vy (normalize v) * vy (normalize v)
          + vz (normalize v) * vz (normalize v)
        = vx v * vx v / ?S + vy v * vy v / ?S + vz v * vz v / ?S"
    using assms by (simp add: normalize_def l Let_def)
  also have "\<dots> = ?S / ?S"
    by (simp only: add_divide_distrib)
  also have "\<dots> = 1"
    using ne by simp
  finally show ?thesis
    by (simp add: vlength_def)
qed

lemma vlength_default: "vlength (normalize (Vector3 1 (1/2) 1)) = 1"
proof -
  have "Vector3 1 (1/2) 1 \<noteq> Vector3 (0::real) 0 0"
    by simp
  then have "vlength (Vector3 1 (1/2) 1) \<noteq> 0"
    by (simp only: vlength_zero not_False_eq_True)
  then show ?thesis
    by (rule vlength_normalize)
qed

lemma normalize_zero: "normalize (Vector3 0 0 0) = Vector3 0 0 0"
  by (simp add: normalize_def vlength_def)

lemma subVectors_zero: "subVectors a b = Vector3 0 0 0 \<longleftrightarrow> a = b"
  by (cases a; cases b) (simp add: subVectors_def)

lemma flyDirection_cases:
  "flyDirection s =
     (if cameraPosition s = lookAtPoint s then normalize (Vector3 1 (1/2) 1)
      else normalize (subVectors (cameraPosition s) (lookAtPoint s)))"
proof (cases "cameraPosition s = lookAtPoint s")
  case True
  then have "subVectors (cameraPosition s) (lookAtPoint s) = Vector3 0 0 0"
    by (simp add: subVectors_zero)
  then show ?thesis
    using True by (simp add: flyDirection_def lookAtPoint_def[symmetric] Let_def normalize_zero vlength_zero)
next
  case False
  then have "vlength (subVectors (cameraPosition s) (lookAtPoint s)) \<noteq> 0"
    by (simp add: vlength_zero subVectors_zero)
  then have "vlength (normalize (subVectors (cameraPosition s) (lookAtPoint s))) = 1"
    by (rule vlength_normalize)
  then show ?thesis
    using False by (simp add: flyDirection_def lookAtPoint_def[symmetric] Let_def)
qed

lemma vlength_flyDirection: "vlength (flyDirection s) = 1"
proof (cases "cameraPosition s = lookAtPoint s")
  case True
  then show ?thesis
    by (simp add: flyDirection_cases vlength_default)
next
  case False
  then have "vlength (subVectors (cameraPosition s) (lookAtPoint s)) \<noteq> 0"
    by (simp add: vlength_zero subVectors_zero)
  then have "vlength (normalize (subVectors (cameraPosition s) (lookAtPoint s))) = 1"
    by (rule vlength_normalize)
  then show ?thesis
    using False by (simp add: flyDirection_cases)
qed

lemma vlength_scaled:
  "vlength (Vector3 (vx v * c) (vy v * c) (vz v * c)) = \<bar>c\<bar> * vlength v"
proof -
  have "vx v * c * (vx v * c) + vy v * c * (vy v * c) + vz v * c * (vz v * c)
        = (c * c) * (vx v * vx v + vy v * vy v + vz v * vz v)"
    by (simp add: algebra_simps)
  then show ?thesis
    by (simp add: vlength_def real_sqrt_mult)
qed

lemma flyTo_record:
  "animRef (flyTo s tgt distance duration cb) =
     Some \<lparr>startPos = cameraPosition s, startTarget = lookAtPoint s,
           endPos = addScaledVector tgt (flyDirection s) (max distance (minOrbitDistance s + 1/100)),
           endTarget = tgt, t = 0, d = max (2/10) (requestedDuration duration), onComplete = cb\<rparr>"
  by (simp add: flyTo_def Let_def lookAtPoint_def minOrbitDistance_def requestedDuration_def)

lemma flyTo_frame:
  "cameraPosition (flyTo s tgt distance duration cb) = cameraPosition s"
  "controlsRef (flyTo s tgt distance duration cb) = controlsRef s"
  "events (flyTo s tgt distance duration cb) = events s"
  by (simp_all add: flyTo_def Let_def)

lemmas flight_eval = flyTo_def flyDirection_def advance_def normalize_def vlength_def subVectors_def
  addScaledVector_def lerpVectors_def Let_def restView_def orbitView_def requestedDuration_def
  minOrbitDistance_def lookAtPoint_def

section \<open>The camera flight: the claims\<close>




text \<open>
  C7. \<open>flyTo\<close> always installs a flight record. Its end position is the target point
  plus the direction times the clamped distance, the clamped distance being the larger
  of the desired distance and the minimum orbit distance plus \<open>0.01\<close>, so a desired
  distance below the minimum is clamped and the request is not rejected; the direction
  is the unit vector from the look-at target to the camera, or the normalized
  \<open>(1, 0.5, 1)\<close> when the camera is at the look-at target, so the end position lies at
  the clamped distance from the target point; and the installed duration is the larger
  of \<open>0.2\<close> and the requested duration.
\<close>

theorem flyTo_clamps:
  "\<exists>a. animRef (flyTo s tgt distance duration cb) = Some a \<and>
        endPos a = Vector3 (vx tgt + vx (flyDirection s) * max distance (minOrbitDistance s + 1/100))
                           (vy tgt + vy (flyDirection s) * max distance (minOrbitDistance s + 1/100))
                           (vz tgt + vz (flyDirection s) * max distance (minOrbitDistance s + 1/100)) \<and>
        d a = max (2/10) (requestedDuration duration) \<and>
        flyDirection s = (if cameraPosition s = lookAtPoint s then normalize (Vector3 1 (1/2) 1)
                          else normalize (subVectors (cameraPosition s) (lookAtPoint s))) \<and>
        vlength (flyDirection s) = 1 \<and>
        vlength (subVectors (endPos a) tgt) = \<bar>max distance (minOrbitDistance s + 1/100)\<bar> \<and>
        startPos a = cameraPosition s \<and> startTarget a = lookAtPoint s \<and> endTarget a = tgt \<and>
        t a = 0 \<and> onComplete a = cb"
proof -
  let ?c = "max distance (minOrbitDistance s + 1/100)"
  let ?e = "Vector3 (vx tgt + vx (flyDirection s) * ?c) (vy tgt + vy (flyDirection s) * ?c)
                    (vz tgt + vz (flyDirection s) * ?c)"
  have e: "addScaledVector tgt (flyDirection s) ?c = ?e"
    by (simp add: addScaledVector_def)
  have "subVectors ?e tgt = Vector3 (vx (flyDirection s) * ?c) (vy (flyDirection s) * ?c) (vz (flyDirection s) * ?c)"
    by (simp add: subVectors_def)
  then have dist: "vlength (subVectors ?e tgt) = \<bar>?c\<bar>"
    by (simp only: vlength_scaled vlength_flyDirection mult_1_right)
  let ?a = "\<lparr>startPos = cameraPosition s, startTarget = lookAtPoint s, endPos = ?e,
             endTarget = tgt, t = 0, d = max (2/10) (requestedDuration duration), onComplete = cb\<rparr>"
  have rec: "animRef (flyTo s tgt distance duration cb) = Some ?a"
    by (simp only: flyTo_record e)
  show ?thesis
  proof (intro exI[of _ ?a] conjI)
    show "animRef (flyTo s tgt distance duration cb) = Some ?a"
      by (rule rec)
    show "flyDirection s = (if cameraPosition s = lookAtPoint s then normalize (Vector3 1 (1/2) 1)
                          else normalize (subVectors (cameraPosition s) (lookAtPoint s)))"
      by (rule flyDirection_cases)
    show "vlength (flyDirection s) = 1"
      by (rule vlength_flyDirection)
    show "vlength (subVectors (endPos ?a) tgt) = \<bar>?c\<bar>"
      using dist by simp
  qed simp_all
qed

theorem flyTo_clamps_witness:
  "minOrbitDistance orbitView = 1/2 \<and>
   map_option endPos (animRef (flyTo orbitView (Vector3 1 1 1) (1/10) (Some (1/10)) None))
     = Some (Vector3 1 1 (151/100)) \<and>
   map_option d (animRef (flyTo orbitView (Vector3 1 1 1) (1/10) (Some (1/10)) None)) = Some (2/10) \<and>
   map_option d (animRef (flyTo orbitView (Vector3 1 1 1) (1/10) None None)) = Some (12/10) \<and>
   flyDirection orbitView = Vector3 0 0 1"
proof -
  let ?s1 = "flyTo orbitView (Vector3 1 1 1) (1/10) (Some (1/10)) None"
  have m: "minOrbitDistance orbitView = 1/2"
    by (simp add: flight_eval)
  have dir: "flyDirection orbitView = Vector3 0 0 1"
    by (simp add: flight_eval)
  from flyTo_clamps[of orbitView "Vector3 1 1 1" "1/10" "Some (1/10)" None] obtain a where
    a: "animRef ?s1 = Some a"
       "endPos a = Vector3 (vx (Vector3 1 1 1) + vx (flyDirection orbitView) * max (1/10) (minOrbitDistance orbitView + 1/100))
                           (vy (Vector3 1 1 1) + vy (flyDirection orbitView) * max (1/10) (minOrbitDistance orbitView + 1/100))
                           (vz (Vector3 1 1 1) + vz (flyDirection orbitView) * max (1/10) (minOrbitDistance orbitView + 1/100))"
       "d a = max (2/10) (requestedDuration (Some (1/10)))"
    by blast
  have e: "map_option endPos (animRef ?s1) = Some (Vector3 1 1 (151/100))"
    using a(1,2) by (simp add: m dir)
  have d1: "map_option d (animRef ?s1) = Some (2/10)"
    using a(1,3) by (simp add: requestedDuration_def)
  have d2: "map_option d (animRef (flyTo orbitView (Vector3 1 1 1) (1/10) None None)) = Some (12/10)"
    by (simp add: flyTo_record requestedDuration_def)
  show ?thesis
    using m e d1 d2 dir by (intro conjI)
qed

text \<open>
  C8. The flight record is a field that holds at most one record. \<open>flyTo\<close> does not
  read the record it replaces: the result is the same as from the state without a
  flight. It calls nothing, the event list being left as it was, and whatever frames
  follow, every continuation called after it is the one of the new request, so the
  continuation of the flight it replaced is not called.
\<close>

theorem flyTo_replaces_silently:
  "flyTo s tgt distance duration cb = flyTo (s\<lparr>animRef := None\<rparr>) tgt distance duration cb \<and>
   events (flyTo s tgt distance duration cb) = events s \<and>
   (\<exists>a. animRef (flyTo s tgt distance duration cb) = Some a \<and> onComplete a = cb) \<and>
   (\<exists>evs. events (advances (flyTo s tgt distance duration cb) deltas) = events s @ evs \<and>
          (\<forall>c. Invoke c \<in> set evs \<longrightarrow> cb = Some c))"
proof -
  let ?s1 = "flyTo s tgt distance duration cb"
  have same: "?s1 = flyTo (s\<lparr>animRef := None\<rparr>) tgt distance duration cb"
    by (simp add: flyTo_def flyDirection_def Let_def)
  have rec: "\<exists>a. animRef ?s1 = Some a \<and> onComplete a = cb"
    by (simp add: flyTo_record)
  from invokes_only_own[of ?s1 deltas] obtain evs where
    evs: "events (advances ?s1 deltas) = events ?s1 @ evs"
         "\<forall>c. Invoke c \<in> set evs \<longrightarrow> (\<exists>a. animRef ?s1 = Some a \<and> onComplete a = Some c)"
    by blast
  have own: "\<forall>c. Invoke c \<in> set evs \<longrightarrow> cb = Some c"
    using evs(2) by (simp add: flyTo_record)
  have "events (advances ?s1 deltas) = events s @ evs"
    using evs(1) by (simp add: flyTo_frame)
  with same rec own flyTo_frame(3)[of s tgt distance duration cb] show ?thesis
    by blast
qed

theorem flyTo_replaces_silently_witness:
  "map_option onComplete (animRef (advance (flyTo restView (Vector3 0 0 0) 4 (Some 1) (Some 7)) (1/2))) = Some (Some 7) \<and>
   events (advance (flyTo restView (Vector3 0 0 0) 4 (Some 1) (Some 7)) (1/2))
     = [SetCameraPosition (Vector3 0 0 3), CameraLookAt (Vector3 0 0 0)] \<and>
   events (flyTo (advance (flyTo restView (Vector3 0 0 0) 4 (Some 1) (Some 7)) (1/2))
             (Vector3 0 0 0) 5 (Some 1) (Some 8))
     = [SetCameraPosition (Vector3 0 0 3), CameraLookAt (Vector3 0 0 0)] \<and>
   events (advances (flyTo (advance (flyTo restView (Vector3 0 0 0) 4 (Some 1) (Some 7)) (1/2))
                       (Vector3 0 0 0) 5 (Some 1) (Some 8)) [1])
     = [SetCameraPosition (Vector3 0 0 3), CameraLookAt (Vector3 0 0 0),
        SetCameraPosition (Vector3 0 0 5), CameraLookAt (Vector3 0 0 0), Invoke 8]"
proof -
  let ?s1 = "advance (flyTo restView (Vector3 0 0 0) 4 (Some 1) (Some 7)) (1/2)"
  have st: "?s1 = \<lparr>cameraPosition = Vector3 0 0 3, controlsRef = None,
                   animRef = Some \<lparr>startPos = Vector3 0 0 2, startTarget = Vector3 0 0 0,
                                   endPos = Vector3 0 0 4, endTarget = Vector3 0 0 0, t = 1/2, d = 1,
                                   onComplete = Some 7\<rparr>,
                   events = [SetCameraPosition (Vector3 0 0 3), CameraLookAt (Vector3 0 0 0)]\<rparr>"
    by (simp add: flight_eval fl_values)
  have p1: "map_option onComplete (animRef ?s1) = Some (Some 7)"
    unfolding st by simp
  have p2: "events ?s1 = [SetCameraPosition (Vector3 0 0 3), CameraLookAt (Vector3 0 0 0)]"
    unfolding st by simp
  have ev: "events (advances (flyTo ?s1 (Vector3 0 0 0) 5 (Some 1) (Some 8)) [1])
     = [SetCameraPosition (Vector3 0 0 3), CameraLookAt (Vector3 0 0 0),
        SetCameraPosition (Vector3 0 0 5), CameraLookAt (Vector3 0 0 0), Invoke 8]"
    unfolding st by (simp add: flight_eval fl_values)
  from flyTo_replaces_silently[of ?s1 "Vector3 0 0 0" 5 "Some 1" "Some 8" "[1]"]
  have "events (flyTo ?s1 (Vector3 0 0 0) 5 (Some 1) (Some 8)) = events ?s1"
    by blast
  then have p3: "events (flyTo ?s1 (Vector3 0 0 0) 5 (Some 1) (Some 8))
     = [SetCameraPosition (Vector3 0 0 3), CameraLookAt (Vector3 0 0 0)]"
    by (simp only: p2)
  show ?thesis
    using p1 p2 p3 ev by (intro conjI)
qed

end
